theory Spec2Isabelle
  imports Main
begin

section \<open>JavaScript values\<close>

text \<open>
  The hooks of \<^verbatim>\<open>hooks.js\<close> inspect the values they are given only through
  \<^verbatim>\<open>typeof\<close>, \<^verbatim>\<open>== null\<close> and \<^verbatim>\<open>===\<close>.  A value is modelled by its
  \<^verbatim>\<open>typeof\<close> class and a payload.  The payload of a number is never inspected by the
  hooks, so an integer stands for it.  A function value is an identity; what calling it
  with one argument returns is looked up in a table \<open>funs\<close> (the functions a caller
  passes are taken to be pure and to return normally).
\<close>

datatype jsvalue =
    JUndefined
  | JNull
  | JBoolean bool
  | JNumber int
  | JString string
  | JBigInt int
  | JSymbol string
  | JArray "jsvalue list"
  | JObject "(string \<times> jsvalue) list"
  | JFunction nat

type_synonym funs = "nat \<Rightarrow> jsvalue \<Rightarrow> jsvalue"

fun typeof :: "jsvalue \<Rightarrow> string" where
  "typeof JUndefined = ''undefined''"
| "typeof JNull = ''object''"
| "typeof (JBoolean b) = ''boolean''"
| "typeof (JNumber n) = ''number''"
| "typeof (JString s) = ''string''"
| "typeof (JBigInt n) = ''bigint''"
| "typeof (JSymbol s) = ''symbol''"
| "typeof (JArray xs) = ''object''"
| "typeof (JObject fs) = ''object''"
| "typeof (JFunction f) = ''function''"

text \<open>\<^verbatim>\<open>v == null\<close>: true of \<^verbatim>\<open>null\<close> and \<^verbatim>\<open>undefined\<close> only.\<close>

fun is_nullish :: "jsvalue \<Rightarrow> bool" where
  "is_nullish JUndefined = True"
| "is_nullish JNull = True"
| "is_nullish v = False"

text \<open>\<^verbatim>\<open>v(x)\<close> for a value \<open>v\<close> whose \<^verbatim>\<open>typeof\<close> is \<^verbatim>\<open>'function'\<close>.\<close>

fun call_function :: "funs \<Rightarrow> jsvalue \<Rightarrow> jsvalue \<Rightarrow> jsvalue" where
  "call_function fs (JFunction f) x = fs f x"
| "call_function fs v x = JUndefined"

text \<open>
  What can be thrown: the \<^verbatim>\<open>Error\<close> of line 71 with its message, the errors of
  \<^verbatim>\<open>JSON.parse\<close> and \<^verbatim>\<open>JSON.stringify\<close>, and the store's own rejection of a value.
\<close>

datatype error =
    Error string
  | SyntaxError string
  | TypeError string
  | UnsupportedType

section \<open>The setter of a typed hook (createMMKVHook, lines 56-72)\<close>

text \<open>
  The calls the hooks make on a store handle.  \<open>hook_set\<close> is the function given to
  \<^verbatim>\<open>useCallback\<close>: it returns the one call it makes on \<^verbatim>\<open>mmkv\<close>, or the error it throws
  before making any.
\<close>

datatype store_call =
    CallSet string jsvalue
  | CallDelete string

definition unsupported :: "string \<Rightarrow> error" where
  "unsupported t = Error (''MMKV: Type '' @ t @ '' is not supported!'')"

definition normalize :: "funs \<Rightarrow> jsvalue \<Rightarrow> jsvalue \<Rightarrow> jsvalue" where
  "normalize fs valueRef_current v =
     (if typeof v = ''function'' then call_function fs v valueRef_current else v)"

definition hook_set :: "funs \<Rightarrow> string \<Rightarrow> jsvalue \<Rightarrow> jsvalue \<Rightarrow> error + store_call" where
  "hook_set fs key valueRef_current v =
     (let newValue = normalize fs valueRef_current v;
          t = typeof newValue
      in if t = ''number'' \<or> t = ''string'' \<or> t = ''boolean'' then Inr (CallSet key newValue)
         else if t = ''undefined'' then Inr (CallDelete key)
         else Inl (unsupported t))"

section \<open>The object hook (useMMKVObject, lines 144-160)\<close>

text \<open>
  \<^verbatim>\<open>JSON.parse\<close> and \<^verbatim>\<open>JSON.stringify\<close> belong to the language, not to this
  repository: they are parameters.  Each takes a value and returns a value or throws.
\<close>

type_synonym json_fun = "jsvalue \<Rightarrow> error + jsvalue"

definition useMMKVObject_value :: "json_fun \<Rightarrow> jsvalue \<Rightarrow> error + jsvalue" where
  "useMMKVObject_value parse string =
     (if is_nullish string then Inr JUndefined else parse string)"

definition useMMKVObject_setValue ::
  "json_fun \<Rightarrow> funs \<Rightarrow> string \<Rightarrow> jsvalue \<Rightarrow> jsvalue \<Rightarrow> error + store_call" where
  "useMMKVObject_setValue stringify fs key valueRef_current v =
     (if is_nullish v then hook_set fs key valueRef_current JUndefined
      else (case stringify v of
              Inl e \<Rightarrow> Inl e
            | Inr s \<Rightarrow> hook_set fs key valueRef_current s))"

section \<open>Configurations and handles (lines 17-47)\<close>

record configuration =
  cfg_id :: "string option"
  cfg_path :: "string option"
  cfg_encryptionKey :: "string option"

definition isConfigurationEqual :: "configuration option \<Rightarrow> configuration option \<Rightarrow> bool" where
  "isConfigurationEqual left right =
     (if left = None \<or> right = None then left = None \<and> right = None
      else cfg_encryptionKey (the left) = cfg_encryptionKey (the right)
         \<and> cfg_id (the left) = cfg_id (the right)
         \<and> cfg_path (the left) = cfg_path (the right))"

text \<open>
  A handle is the identity of an object made by \<^verbatim>\<open>new MMKV(...)\<close>.  The state of the
  process, as far as handles go: the module variable \<^verbatim>\<open>defaultInstance\<close> (line 22) and the
  configuration of every construction so far.
\<close>

type_synonym handle = nat

record process =
  defaultInstance :: "handle option"
  constructed :: "configuration option list"

text \<open>
  Modelled from the spec: the constructor of the class \<^verbatim>\<open>MMKV\<close>, whose code is not among
  the sources (section 3: every construction makes a handle of its own, identified by its
  configuration, and handles coexist).  Only the allocation is modelled: the n-th
  construction of the process yields handle n.
\<close>

definition new_MMKV :: "configuration option \<Rightarrow> process \<Rightarrow> handle \<times> process" where
  "new_MMKV c p = (length (constructed p), p\<lparr>constructed := constructed p @ [c]\<rparr>)"

definition getDefaultInstance :: "process \<Rightarrow> handle \<times> process" where
  "getDefaultInstance p =
     (case defaultInstance p of
        None \<Rightarrow> (let (h, p') = new_MMKV None p in (h, p'\<lparr>defaultInstance := Some h\<rparr>))
      | Some h \<Rightarrow> (h, p))"

text \<open>The two refs of one \<^verbatim>\<open>useMMKV\<close> call site; \<^verbatim>\<open>useRef()\<close> starts both undefined.\<close>

record useMMKV_refs =
  instance_current :: "handle option"
  lastConfiguration_current :: "configuration option"

definition initial_refs :: useMMKV_refs where
  "initial_refs = \<lparr>instance_current = None, lastConfiguration_current = None\<rparr>"

definition useMMKV ::
  "configuration option \<Rightarrow> useMMKV_refs \<Rightarrow> process \<Rightarrow> handle \<times> useMMKV_refs \<times> process" where
  "useMMKV configuration refs p =
     (if configuration = None then (let (h, p') = getDefaultInstance p in (h, refs, p'))
      else if instance_current refs = None
              \<or> \<not> isConfigurationEqual (lastConfiguration_current refs) configuration
      then (let (h, p') = new_MMKV configuration p
            in (h, \<lparr>instance_current = Some h, lastConfiguration_current = configuration\<rparr>, p'))
      else (the (instance_current refs), refs, p))"

text \<open>Successive renders of one call site, each with the configuration it is given.\<close>

fun useMMKV_renders ::
  "configuration option list \<Rightarrow> useMMKV_refs \<Rightarrow> process
     \<Rightarrow> handle list \<times> useMMKV_refs \<times> process" where
  "useMMKV_renders [] refs p = ([], refs, p)"
| "useMMKV_renders (c # cs) refs p =
     (let (h, refs', p') = useMMKV c refs p;
          (hs, refs'', p'') = useMMKV_renders cs refs' p'
      in (h # hs, refs'', p''))"

text \<open>The most recent configuration of a list of renders that was not absent.\<close>

definition last_present :: "configuration option list \<Rightarrow> configuration option" where
  "last_present cs =
     (let present = filter (\<lambda>c. c \<noteq> None) cs in if present = [] then None else last present)"

text \<open>
  The handle the call site holds in \<^verbatim>\<open>instance.current\<close> after a list of renders that
  returned the handles \<open>hs\<close>: the one returned by the most recent render whose
  configuration was not absent.
\<close>

definition cached_handle :: "configuration option list \<Rightarrow> handle list \<Rightarrow> handle option" where
  "cached_handle cs hs =
     (let present = filter (\<lambda>(c, h). c \<noteq> None) (zip cs hs)
      in if present = [] then None else Some (snd (last present)))"

text \<open>
  \<^verbatim>\<open>instance !== null && instance !== void 0 ? instance : getDefaultInstance()\<close>
  (lines 51 and 179).
\<close>

definition resolve_instance :: "handle option \<Rightarrow> process \<Rightarrow> handle \<times> process" where
  "resolve_instance inst p = (case inst of Some h \<Rightarrow> (h, p) | None \<Rightarrow> getDefaultInstance p)"

text \<open>
  The calls that reach the default handle: \<^verbatim>\<open>getDefaultInstance()\<close> itself, a render
  of \<^verbatim>\<open>useMMKV\<close> (at any call site, so with any refs) and the first line of a hook
  given an instance or none.
\<close>

datatype process_call =
    GetDefaultInstance
  | UseMMKV useMMKV_refs "configuration option"
  | Hook "handle option"

fun perform_call :: "process_call \<Rightarrow> process \<Rightarrow> handle \<times> process" where
  "perform_call GetDefaultInstance p = getDefaultInstance p"
| "perform_call (UseMMKV refs c) p = (let (h, refs', p') = useMMKV c refs p in (h, p'))"
| "perform_call (Hook inst) p = resolve_instance inst p"

fun perform_calls :: "process_call list \<Rightarrow> process \<Rightarrow> handle list \<times> process" where
  "perform_calls [] p = ([], p)"
| "perform_calls (c # cs) p =
     (let (h, p') = perform_call c p;
          (hs, p'') = perform_calls cs p'
      in (h # hs, p''))"

fun wants_default :: "process_call \<Rightarrow> bool" where
  "wants_default GetDefaultInstance = True"
| "wants_default (UseMMKV refs c) = (c = None)"
| "wants_default (Hook inst) = (inst = None)"

text \<open>How often \<^verbatim>\<open>new MMKV()\<close>, with no configuration, has run.\<close>

definition default_constructions :: "process \<Rightarrow> nat" where
  "default_constructions p = length (filter (\<lambda>c. c = None) (constructed p))"

section \<open>The store handle and its change notifier\<close>

text \<open>
  The three getters given to \<^verbatim>\<open>createMMKVHook\<close> (lines 102, 115, 128), and the two
  arrow functions the hooks register as listeners: the one of lines 80-84, which captures
  the binding it belongs to (its \<^verbatim>\<open>setValue\<close>), \<^verbatim>\<open>getter\<close>, \<^verbatim>\<open>key\<close> and \<^verbatim>\<open>mmkv\<close>, and
  the one of lines 181-183, which captures the \<^verbatim>\<open>ref\<close> of its listener hook.
\<close>

datatype getter = GetString | GetNumber | GetBoolean

datatype closure =
    HookListener nat getter string handle
  | RefListener nat

text \<open>
  Modelled from the spec: the class \<^verbatim>\<open>MMKV\<close> (only its declaration \<^verbatim>\<open>MMKV.d.ts\<close> is among
  the sources).  A store handle holds the values of its keys, each a boolean, a number or a
  string, and the registry of its listeners; a registration has an identity, by which its
  \<^verbatim>\<open>remove()\<close> finds it.
\<close>

record mmkv =
  contents :: "string \<rightharpoonup> jsvalue"
  listeners :: "(nat \<times> closure) list"

text \<open>
  Modelled from the spec: the typed accessors of \<^verbatim>\<open>MMKV\<close> (section 4.1), which return
  absent, not an error, when the key is unset or holds a value of another type.
\<close>

definition mmkv_getString :: "mmkv \<Rightarrow> string \<Rightarrow> jsvalue" where
  "mmkv_getString m k = (case contents m k of Some (JString s) \<Rightarrow> JString s | _ \<Rightarrow> JUndefined)"

definition mmkv_getNumber :: "mmkv \<Rightarrow> string \<Rightarrow> jsvalue" where
  "mmkv_getNumber m k = (case contents m k of Some (JNumber n) \<Rightarrow> JNumber n | _ \<Rightarrow> JUndefined)"

definition mmkv_getBoolean :: "mmkv \<Rightarrow> string \<Rightarrow> jsvalue" where
  "mmkv_getBoolean m k = (case contents m k of Some (JBoolean b) \<Rightarrow> JBoolean b | _ \<Rightarrow> JUndefined)"

text \<open>Modelled from the spec: \<^verbatim>\<open>contains(key)\<close> of \<^verbatim>\<open>MMKV\<close>.\<close>

definition mmkv_contains :: "mmkv \<Rightarrow> string \<Rightarrow> bool" where
  "mmkv_contains m k = (contents m k \<noteq> None)"

fun run_getter :: "getter \<Rightarrow> mmkv \<Rightarrow> string \<Rightarrow> jsvalue" where
  "run_getter GetString instance key = mmkv_getString instance key"
| "run_getter GetNumber instance key = mmkv_getNumber instance key"
| "run_getter GetBoolean instance key = mmkv_getBoolean instance key"

section \<open>Reactive bindings\<close>

text \<open>
  \<^verbatim>\<open>useState\<close>, \<^verbatim>\<open>useRef\<close>, \<^verbatim>\<open>useEffect\<close>, \<^verbatim>\<open>useCallback\<close> and \<^verbatim>\<open>useMemo\<close> are React's, taken
  with their documented behaviour: state and refs persist from one render of a component
  to the next, a value given to \<^verbatim>\<open>setValue\<close> is what later renders return, and an effect
  runs when a render is committed, on mount and whenever its dependencies have changed,
  after the clean-up its previous run returned.
\<close>

text \<open>
  The state React keeps for one use of a typed hook (a binding): the dependencies
  \<^verbatim>\<open>[key, mmkv]\<close> of the last run of its effects, the \<^verbatim>\<open>useState\<close> value, \<^verbatim>\<open>valueRef.current\<close>
  and the listener its second effect holds.  For one use of \<^verbatim>\<open>useMMKVListener\<close>:
  \<^verbatim>\<open>ref.current\<close> (a function, by its identity), the dependency \<^verbatim>\<open>[mmkv]\<close> and the listener.
\<close>

record binding =
  b_key :: string
  b_mmkv :: handle
  b_value :: jsvalue
  b_valueRef :: jsvalue
  b_listener :: nat

record listener_hook =
  l_ref :: nat
  l_mmkv :: handle
  l_listener :: nat

text \<open>
  The world: every store handle, the notifications scheduled and not yet delivered (handle,
  registration, changed key), the log of the registrations invoked, the bindings and
  listener hooks mounted, and the log of the calls of the functions given to
  \<^verbatim>\<open>useMMKVListener\<close> (function, changed key).
\<close>

record world =
  stores :: "handle \<Rightarrow> mmkv"
  next_listener :: nat
  pending :: "(handle \<times> nat \<times> string) list"
  delivered :: "(nat \<times> string) list"
  bindings :: "nat \<rightharpoonup> binding"
  listener_hooks :: "nat \<rightharpoonup> listener_hook"
  calls :: "(nat \<times> string) list"

text \<open>
  Modelled from the spec: the change notifier of \<^verbatim>\<open>MMKV\<close> (section 4.2).  A change of key
  \<open>k\<close> on handle \<open>h\<close> schedules one notification for every listener registered on \<open>h\<close> at
  that moment; delivery may follow at once or later.
\<close>

definition notify :: "handle \<Rightarrow> string \<Rightarrow> world \<Rightarrow> world" where
  "notify h k w = w\<lparr>pending := pending w @ map (\<lambda>(i, c). (h, i, k)) (listeners (stores w h))\<rparr>"

text \<open>
  Modelled from the spec: \<^verbatim>\<open>set(key, value)\<close> of \<^verbatim>\<open>MMKV\<close> (section 4.1): it stores a boolean,
  number or string and then triggers the notifier for the key; any other value is refused.
\<close>

definition mmkv_set :: "handle \<Rightarrow> string \<Rightarrow> jsvalue \<Rightarrow> world \<Rightarrow> error option \<times> world" where
  "mmkv_set h k v w =
     (if typeof v = ''boolean'' \<or> typeof v = ''number'' \<or> typeof v = ''string''
      then (None,
            notify h k
              (w\<lparr>stores := (stores w)
                   (h := (stores w h)\<lparr>contents := (contents (stores w h))(k \<mapsto> v)\<rparr>)\<rparr>))
      else (Some UnsupportedType, w))"

text \<open>
  Modelled from the spec: \<^verbatim>\<open>delete(key)\<close> of \<^verbatim>\<open>MMKV\<close> (section 4.1): it removes the key and
  triggers the notifier for it.
\<close>

definition mmkv_delete :: "handle \<Rightarrow> string \<Rightarrow> world \<Rightarrow> world" where
  "mmkv_delete h k w =
     notify h k
       (w\<lparr>stores := (stores w)
            (h := (stores w h)\<lparr>contents := (contents (stores w h))(k := None)\<rparr>)\<rparr>)"

text \<open>
  Modelled from the spec: \<^verbatim>\<open>addOnValueChangedListener(callback)\<close> of \<^verbatim>\<open>MMKV\<close>
  (section 4.1): it registers the callback and returns the registration.
\<close>

definition addOnValueChangedListener :: "handle \<Rightarrow> closure \<Rightarrow> world \<Rightarrow> nat \<times> world" where
  "addOnValueChangedListener h c w =
     (next_listener w,
      w\<lparr>stores := (stores w)
           (h := (stores w h)\<lparr>listeners := listeners (stores w h) @ [(next_listener w, c)]\<rparr>),
        next_listener := Suc (next_listener w)\<rparr>)"

text \<open>
  Modelled from the spec: \<^verbatim>\<open>remove()\<close> of the registration returned by
  \<^verbatim>\<open>addOnValueChangedListener\<close> (section 4.1): it takes the observer out of the registry of
  its handle.
\<close>

definition listener_remove :: "handle \<Rightarrow> nat \<Rightarrow> world \<Rightarrow> world" where
  "listener_remove h i w =
     w\<lparr>stores := (stores w)
          (h := (stores w h)\<lparr>listeners := filter (\<lambda>(j, c). j \<noteq> i) (listeners (stores w h))\<rparr>)\<rparr>"

text \<open>
  \<^verbatim>\<open>setValue\<close> of a binding's \<^verbatim>\<open>useState\<close>: the value the next render returns.  React
  drops the update of a component that is not mounted.
\<close>

definition setValue :: "nat \<Rightarrow> jsvalue \<Rightarrow> world \<Rightarrow> world" where
  "setValue b v w =
     (case bindings w b of
        None \<Rightarrow> w
      | Some bd \<Rightarrow> w\<lparr>bindings := (bindings w)(b \<mapsto> bd\<lparr>b_value := v\<rparr>)\<rparr>)"

text \<open>
  The bodies of the two listeners (lines 80-84 and 181-183).  The function in
  \<^verbatim>\<open>ref.current\<close> is the caller's: its call is logged.
\<close>

fun invoke :: "closure \<Rightarrow> string \<Rightarrow> world \<Rightarrow> world" where
  "invoke (HookListener b getter key mmkv) changedKey w =
     (if changedKey = key then setValue b (run_getter getter (stores w mmkv) key) w else w)"
| "invoke (RefListener r) changedKey w =
     (case listener_hooks w r of
        None \<Rightarrow> w
      | Some l \<Rightarrow> w\<lparr>calls := calls w @ [(l_ref l, changedKey)]\<rparr>)"

text \<open>
  Modelled from the spec: delivery by the change notifier of \<^verbatim>\<open>MMKV\<close> (sections 4.2
  and 5).  A scheduled notification reaches its listener if the listener is still
  registered when it is delivered, and is dropped otherwise; an invocation is logged.
\<close>

definition deliver1 :: "handle \<times> nat \<times> string \<Rightarrow> world \<Rightarrow> world" where
  "deliver1 n w =
     (case n of (h, i, k) \<Rightarrow>
        (case map_of (listeners (stores w h)) i of
           None \<Rightarrow> w
         | Some c \<Rightarrow> invoke c k (w\<lparr>delivered := delivered w @ [(i, k)]\<rparr>)))"

text \<open>Modelled from the spec: the delivery of the oldest scheduled notification.\<close>

definition deliver :: "world \<Rightarrow> world" where
  "deliver w = (case pending w of [] \<Rightarrow> w | n # ns \<Rightarrow> deliver1 n (w\<lparr>pending := ns\<rparr>))"

text \<open>
  Modelled from the spec: the delivery of every scheduled notification, oldest first, as
  when the notifier delivers at once.
\<close>

definition flush :: "world \<Rightarrow> world" where
  "flush w = fold deliver1 (pending w) (w\<lparr>pending := []\<rparr>)"

section \<open>The hooks\<close>

text \<open>
  One render of a typed hook made by \<^verbatim>\<open>createMMKVHook(getter)\<close> for the binding \<open>b\<close>
  (lines 50-88), together with the effects React runs when it commits the render: on
  mount, and whenever \<^verbatim>\<open>[key, mmkv]\<close> differ from those of the last run, the clean-up of
  the second effect (\<^verbatim>\<open>listener.remove()\<close>), the first effect (\<^verbatim>\<open>setValue(getter(mmkv, key))\<close>)
  and the second (\<^verbatim>\<open>addOnValueChangedListener\<close>).  \<^verbatim>\<open>mmkv\<close> is the handle of line 51.  The
  result is the \<^verbatim>\<open>value\<close> the render returns.
\<close>

definition createMMKVHook :: "getter \<Rightarrow> nat \<Rightarrow> string \<Rightarrow> handle \<Rightarrow> world \<Rightarrow> jsvalue \<times> world" where
  "createMMKVHook getter b key mmkv w =
     (case bindings w b of
        None \<Rightarrow>
          (let value = run_getter getter (stores w mmkv) key;
               (i, w') = addOnValueChangedListener mmkv (HookListener b getter key mmkv) w
           in (value,
               w'\<lparr>bindings := (bindings w')
                    (b \<mapsto> \<lparr>b_key = key, b_mmkv = mmkv,
                           b_value = run_getter getter (stores w mmkv) key,
                           b_valueRef = value, b_listener = i\<rparr>)\<rparr>))
      | Some bd \<Rightarrow>
          (let value = b_value bd
           in if b_key bd = key \<and> b_mmkv bd = mmkv
              then (value, w\<lparr>bindings := (bindings w)(b \<mapsto> bd\<lparr>b_valueRef := value\<rparr>)\<rparr>)
              else
                (let w1 = listener_remove (b_mmkv bd) (b_listener bd) w;
                     (i, w2) = addOnValueChangedListener mmkv (HookListener b getter key mmkv) w1
                 in (value,
                     w2\<lparr>bindings := (bindings w2)
                          (b \<mapsto> \<lparr>b_key = key, b_mmkv = mmkv,
                                 b_value = run_getter getter (stores w mmkv) key,
                                 b_valueRef = value, b_listener = i\<rparr>)\<rparr>))))"

text \<open>The one call a setter makes on the handle.\<close>

fun perform :: "handle \<Rightarrow> store_call \<Rightarrow> world \<Rightarrow> error option \<times> world" where
  "perform h (CallSet k v) w = mmkv_set h k v w"
| "perform h (CallDelete k) w = (None, mmkv_delete h k w)"

text \<open>
  A call of the setter the binding \<open>b\<close> returned at its latest render: \<^verbatim>\<open>key\<close> and \<^verbatim>\<open>mmkv\<close>
  are those of that render, \<^verbatim>\<open>valueRef.current\<close> is read when the setter runs.  The result
  is the error thrown, if any, and the world after the call.  (A binding that is not
  mounted has returned no setter.)
\<close>

definition run_setter ::
  "(string \<Rightarrow> jsvalue \<Rightarrow> error + store_call) \<Rightarrow> nat \<Rightarrow> world \<Rightarrow> error option \<times> world" where
  "run_setter setter b w =
     (case bindings w b of
        None \<Rightarrow> (None, w)
      | Some bd \<Rightarrow>
          (case setter (b_key bd) (b_valueRef bd) of
             Inl e \<Rightarrow> (Some e, w)
           | Inr c \<Rightarrow> perform (b_mmkv bd) c w))"

definition binding_set :: "funs \<Rightarrow> nat \<Rightarrow> jsvalue \<Rightarrow> world \<Rightarrow> error option \<times> world" where
  "binding_set fs b v w = run_setter (\<lambda>key valueRef_current. hook_set fs key valueRef_current v) b w"

text \<open>
  \<^verbatim>\<open>useMMKVObject\<close>: a render (the string hook's render, then \<^verbatim>\<open>useMemo\<close>, whose function
  throws when \<^verbatim>\<open>JSON.parse\<close> does), and a call of the \<^verbatim>\<open>setValue\<close> it returns.
\<close>

definition useMMKVObject ::
  "json_fun \<Rightarrow> nat \<Rightarrow> string \<Rightarrow> handle \<Rightarrow> world \<Rightarrow> error + (jsvalue \<times> world)" where
  "useMMKVObject parse b key mmkv w =
     (let (string, w') = createMMKVHook GetString b key mmkv w
      in case useMMKVObject_value parse string of
           Inl e \<Rightarrow> Inl e
         | Inr value \<Rightarrow> Inr (value, w'))"

definition object_set :: "json_fun \<Rightarrow> funs \<Rightarrow> nat \<Rightarrow> jsvalue \<Rightarrow> world \<Rightarrow> error option \<times> world" where
  "object_set stringify fs b v w =
     run_setter
       (\<lambda>key valueRef_current. useMMKVObject_setValue stringify fs key valueRef_current v) b w"

text \<open>
  One render of \<^verbatim>\<open>useMMKVListener\<close> for the listener hook \<open>r\<close> (lines 176-186), with the
  effect React runs on mount and whenever \<^verbatim>\<open>[mmkv]\<close> differs from that of the last run.
\<close>

definition useMMKVListener :: "nat \<Rightarrow> nat \<Rightarrow> handle \<Rightarrow> world \<Rightarrow> world" where
  "useMMKVListener r valueChangedListener mmkv w =
     (case listener_hooks w r of
        None \<Rightarrow>
          (let (i, w') = addOnValueChangedListener mmkv (RefListener r) w
           in w'\<lparr>listener_hooks := (listener_hooks w')
                   (r \<mapsto> \<lparr>l_ref = valueChangedListener, l_mmkv = mmkv, l_listener = i\<rparr>)\<rparr>)
      | Some l \<Rightarrow>
          if l_mmkv l = mmkv
          then w\<lparr>listener_hooks := (listener_hooks w)(r \<mapsto> l\<lparr>l_ref := valueChangedListener\<rparr>)\<rparr>
          else
            (let w1 = listener_remove (l_mmkv l) (l_listener l) w;
                 (i, w2) = addOnValueChangedListener mmkv (RefListener r) w1
             in w2\<lparr>listener_hooks := (listener_hooks w2)
                     (r \<mapsto> \<lparr>l_ref = valueChangedListener, l_mmkv = mmkv, l_listener = i\<rparr>)\<rparr>))"

section \<open>Runs\<close>

text \<open>
  Everything that can happen to a world: a party calls \<^verbatim>\<open>set\<close> or \<^verbatim>\<open>delete\<close> on a handle,
  the notifier is triggered for a key by any other change, a listener is registered or
  removed, a scheduled notification is delivered, a hook renders, a setter is called.
\<close>

datatype event =
    Set handle string jsvalue
  | Delete handle string
  | Changed handle string
  | Subscribe handle closure
  | Cancel handle nat
  | Deliver
  | Render getter nat string handle
  | RenderListener nat nat handle
  | Write funs nat jsvalue

fun step :: "event \<Rightarrow> world \<Rightarrow> world" where
  "step (Set h k v) w = snd (mmkv_set h k v w)"
| "step (Delete h k) w = mmkv_delete h k w"
| "step (Changed h k) w = notify h k w"
| "step (Subscribe h c) w = snd (addOnValueChangedListener h c w)"
| "step (Cancel h i) w = listener_remove h i w"
| "step Deliver w = deliver w"
| "step (Render g b key mmkv) w = snd (createMMKVHook g b key mmkv w)"
| "step (RenderListener r f mmkv) w = useMMKVListener r f mmkv w"
| "step (Write fs b v) w = snd (binding_set fs b v w)"

definition run :: "event list \<Rightarrow> world \<Rightarrow> world" where
  "run evs w = fold step evs w"

text \<open>The invocations of one registration in a log.\<close>

definition invocations :: "nat \<Rightarrow> (nat \<times> string) list \<Rightarrow> (nat \<times> string) list" where
  "invocations i log = filter (\<lambda>(j, k). j = i) log"

text \<open>
  The registration \<open>i\<close> has been given out and is in the registry of no handle of \<open>H\<close>.
\<close>

definition absent_on :: "nat \<Rightarrow> handle set \<Rightarrow> world \<Rightarrow> bool" where
  "absent_on i H w \<longleftrightarrow>
     i < next_listener w \<and> (\<forall>h \<in> H. i \<notin> fst ` set (listeners (stores w h)))"

text \<open>No registration of the world has an identity that is still to be given out.\<close>

definition fresh_ids :: "world \<Rightarrow> bool" where
  "fresh_ids w \<longleftrightarrow> (\<forall>h. \<forall>(j, c) \<in> set (listeners (stores w h)). j < next_listener w)"

text \<open>
  The binding \<open>b\<close>, made by \<^verbatim>\<open>createMMKVHook(g)\<close>, is bound to \<open>(key, h)\<close>: its listener is
  registered on \<open>h\<close>, and no listener made by an earlier run of its effect, for another key
  or handle, is registered anywhere.
\<close>

definition bound :: "world \<Rightarrow> nat \<Rightarrow> getter \<Rightarrow> string \<Rightarrow> handle \<Rightarrow> bool" where
  "bound w b g key h \<longleftrightarrow>
     (case bindings w b of
        None \<Rightarrow> False
      | Some bd \<Rightarrow>
          b_key bd = key \<and> b_mmkv bd = h
        \<and> map_of (listeners (stores w h)) (b_listener bd) = Some (HookListener b g key h))
   \<and> (\<forall>h' i g' k' m'.
         map_of (listeners (stores w h')) i = Some (HookListener b g' k' m')
           \<longrightarrow> g' = g \<and> k' = key \<and> m' = h)"

text \<open>The key a call is about.\<close>

fun call_key :: "store_call \<Rightarrow> string" where
  "call_key (CallSet k v) = k"
| "call_key (CallDelete k) = k"

text \<open>The cached value of the binding \<open>b\<close> is what a fresh typed get returns.\<close>

definition synced :: "world \<Rightarrow> nat \<Rightarrow> getter \<Rightarrow> string \<Rightarrow> handle \<Rightarrow> bool" where
  "synced w b g key h \<longleftrightarrow>
     (case bindings w b of
        None \<Rightarrow> False
      | Some bd \<Rightarrow> b_value bd = run_getter g (stores w h) key)"

text \<open>Sample inputs.\<close>

definition cfg_a :: configuration where
  "cfg_a = \<lparr>cfg_id = Some ''a'', cfg_path = None, cfg_encryptionKey = None\<rparr>"

definition fresh_process :: process where
  "fresh_process = \<lparr>defaultInstance = None, constructed = []\<rparr>"

definition empty_world :: world where
  "empty_world =
     \<lparr>stores = (\<lambda>h. \<lparr>contents = Map.empty, listeners = []\<rparr>), next_listener = 0,
      pending = [], delivered = [], bindings = Map.empty, listener_hooks = Map.empty,
      calls = []\<rparr>"

text \<open>Two string bindings mounted on the key \<^verbatim>\<open>k\<close> of handle 0.\<close>

definition two_bindings :: world where
  "two_bindings =
     snd (createMMKVHook GetString 1 ''k'' 0 (snd (createMMKVHook GetString 0 ''k'' 0 empty_world)))"

text \<open>A table of functions in which every function returns its argument.\<close>

definition snapshot :: funs where
  "snapshot f x = x"

text \<open>
  A number binding behind the store: the store held 1 when the binding was mounted, then
  another party wrote 5, and the notification has not been delivered yet.
\<close>

definition stale_world :: world where
  "stale_world =
     snd (mmkv_set 0 ''n'' (JNumber 5)
       (snd (createMMKVHook GetNumber 0 ''n'' 0
         (snd (mmkv_set 0 ''n'' (JNumber 1) empty_world)))))"

text \<open>A table of functions in which every function adds one to a number.\<close>

definition increment :: funs where
  "increment f x = (case x of JNumber n \<Rightarrow> JNumber (n + 1) | _ \<Rightarrow> x)"

text \<open>A table of functions in which every function returns the string \<^verbatim>\<open>x\<close>.\<close>

definition always_x :: funs where
  "always_x f x = JString ''x''"

text \<open>
  The JSON text of the object \<^verbatim>\<open>{a: 1}\<close>, and \<^verbatim>\<open>JSON.stringify\<close> and \<^verbatim>\<open>JSON.parse\<close> on the
  few inputs the examples below need; on any other input an error stands for whatever the
  language does.
\<close>

definition json_a1 :: string where
  "json_a1 = ''{'' @ [CHR 0x22] @ ''a'' @ [CHR 0x22] @ '':1}''"

definition demo_stringify :: json_fun where
  "demo_stringify v =
     (if v = JObject [(''a'', JNumber 1)] then Inr (JString json_a1)
      else if v = JNull then Inr (JString ''null'')
      else if v = JUndefined then Inr JUndefined
      else Inl (TypeError ''not in the table''))"

definition demo_parse :: json_fun where
  "demo_parse x =
     (if x = JString json_a1 then Inr (JObject [(''a'', JNumber 1)])
      else if x = JString ''null'' then Inr JNull
      else Inl (SyntaxError ''Unexpected token''))"

text \<open>The two string bindings after the first has written the JSON text of \<^verbatim>\<open>{a: 1}\<close>.\<close>

definition written_world :: world where
  "written_world = flush (snd (binding_set snapshot 0 (JString json_a1) two_bindings))"

text \<open>A store in which another party has left a string that is not JSON.\<close>

definition garbage_world :: world where
  "garbage_world = snd (mmkv_set 0 ''k'' (JString ''not json'') empty_world)"

text \<open>An empty world after one listener has been registered on handle 0.\<close>

definition one_listener :: world where
  "one_listener = snd (addOnValueChangedListener 0 (RefListener 0) empty_world)"

text \<open>
  A listener hook mounted on handle 0 with the function 7, then rendered again with the
  function 8.
\<close>

definition listener_mounted :: world where
  "listener_mounted = useMMKVListener 0 7 0 empty_world"

definition listener_rerendered :: world where
  "listener_rerendered = useMMKVListener 0 8 0 listener_mounted"

section \<open>Properties of configurations and handles\<close>

lemma isConfigurationEqual_eq: "isConfigurationEqual l r \<longleftrightarrow> l = r"
  by (cases l; cases r) (auto simp: isConfigurationEqual_def)

lemma useMMKV_renders_append:
  "useMMKV_renders (cs @ ds) refs p =
     (let (hs, refs', p') = useMMKV_renders cs refs p;
          (ks, refs'', p'') = useMMKV_renders ds refs' p'
      in (hs @ ks, refs'', p''))"
  by (induction cs arbitrary: refs p) (auto simp: Let_def split: prod.splits)

lemma useMMKV_renders_length:
  "useMMKV_renders cs refs p = (hs, refs', p') \<Longrightarrow> length hs = length cs"
  by (induction cs arbitrary: refs p hs) (auto simp: Let_def split: prod.splits)

lemma last_present_snoc:
  "last_present (cs @ [c]) = (if c = None then last_present cs else c)"
  by (simp add: last_present_def)

lemma cached_handle_snoc:
  "length hs = length cs \<Longrightarrow>
   cached_handle (cs @ [c]) (hs @ [h]) = (if c = None then cached_handle cs hs else Some h)"
  by (simp add: cached_handle_def)

lemma useMMKV_constructed:
  "useMMKV c refs p = (h, refs', p') \<Longrightarrow> length (constructed p) \<le> length (constructed p')"
  by (auto simp: useMMKV_def new_MMKV_def getDefaultInstance_def
      split: if_splits prod.splits option.splits)

text \<open>
  What the two refs hold after any renders of a call site: the last configuration that was
  not absent, and the handle returned for it, which was constructed earlier.
\<close>

lemma useMMKV_renders_refs:
  "useMMKV_renders cs initial_refs p0 = (hs, refs, p) \<Longrightarrow>
     lastConfiguration_current refs = last_present cs
   \<and> instance_current refs = cached_handle cs hs
   \<and> (cached_handle cs hs = None \<longleftrightarrow> last_present cs = None)
   \<and> (\<forall>h. cached_handle cs hs = Some h \<longrightarrow> h < length (constructed p))"
proof (induction cs arbitrary: hs refs p rule: rev_induct)
  case Nil
  then show ?case by (auto simp: initial_refs_def last_present_def cached_handle_def)
next
  case (snoc c cs)
  obtain hs1 refs1 p1 where r1: "useMMKV_renders cs initial_refs p0 = (hs1, refs1, p1)"
    by (cases "useMMKV_renders cs initial_refs p0") auto
  note ih = snoc.IH [OF r1]
  note len = useMMKV_renders_length [OF r1]
  from snoc.prems r1 obtain h where
    step: "useMMKV c refs1 p1 = (h, refs, p)" and hs: "hs = hs1 @ [h]"
    by (auto simp: useMMKV_renders_append split: prod.splits)
  note grow = useMMKV_constructed [OF step]
  have refs: "lastConfiguration_current refs = last_present (cs @ [c])
      \<and> instance_current refs = cached_handle (cs @ [c]) (hs1 @ [h])
      \<and> (cached_handle (cs @ [c]) (hs1 @ [h]) = None \<longleftrightarrow> last_present (cs @ [c]) = None)"
    using step ih len
    by (auto simp: useMMKV_def last_present_snoc cached_handle_snoc isConfigurationEqual_eq
        new_MMKV_def split: if_splits prod.splits)
  have old: "\<forall>h'. cached_handle (cs @ [c]) (hs1 @ [h]) = Some h' \<longrightarrow> h' < length (constructed p)"
  proof (cases "c = None")
    case True
    with ih len grow show ?thesis by (auto simp: cached_handle_snoc)
  next
    case False
    have "h < length (constructed p)"
    proof (cases "instance_current refs1 = None
        \<or> \<not> isConfigurationEqual (lastConfiguration_current refs1) c")
      case True
      with step False show ?thesis by (auto simp: useMMKV_def new_MMKV_def)
    next
      case reuse: False
      with step False have "instance_current refs1 = Some h" by (auto simp: useMMKV_def)
      with ih grow show ?thesis by auto
    qed
    with False len show ?thesis by (auto simp: cached_handle_snoc)
  qed
  from refs old show ?case unfolding hs by blast
qed

text \<open>
  C4, as stated, fails: a call site rendered with a configuration, then with none, then with
  the first configuration again gets its cached handle back at the third render, although
  the configuration supplied just before (none) does not compare equal to the one supplied
  now.
\<close>

theorem useMMKV_reuse_counterexample:
  "fst (useMMKV_renders [Some cfg_a, None, Some cfg_a] initial_refs fresh_process) = [0, 1, 0]
   \<and> \<not> isConfigurationEqual None (Some cfg_a)"
  by (simp add: useMMKV_def initial_refs_def fresh_process_def new_MMKV_def
      getDefaultInstance_def isConfigurationEqual_def)

text \<open>
  C4, amended.  \<open>isConfigurationEqual\<close> holds of two configurations iff both are absent, or
  both are present with equal id, path and encryptionKey.  After any renders of a call
  site, a render with a present configuration \<open>c\<close> returns the cached handle (the one
  returned for the most recent present configuration) and constructs nothing iff \<open>c\<close>
  compares equal to the most recent present configuration; otherwise it constructs a fresh
  handle, other than the cached one, and records \<open>c\<close>.  A render with an absent
  configuration returns the default handle and leaves the cache as it is.
\<close>

theorem useMMKV_reuse:
  "(isConfigurationEqual left right \<longleftrightarrow>
      (left = None \<and> right = None) \<or>
      (\<exists>a b. left = Some a \<and> right = Some b \<and> cfg_id a = cfg_id b \<and> cfg_path a = cfg_path b
         \<and> cfg_encryptionKey a = cfg_encryptionKey b))
   \<and> (useMMKV_renders cs initial_refs p0 = (hs, refs, p) \<longrightarrow>
        useMMKV (Some c) refs p =
          (if isConfigurationEqual (last_present cs) (Some c)
           then (the (cached_handle cs hs), refs, p)
           else (length (constructed p),
                 \<lparr>instance_current = Some (length (constructed p)),
                  lastConfiguration_current = Some c\<rparr>,
                 p\<lparr>constructed := constructed p @ [Some c]\<rparr>))
      \<and> cached_handle cs hs \<noteq> Some (length (constructed p))
      \<and> useMMKV None refs p = (fst (getDefaultInstance p), refs, snd (getDefaultInstance p)))"
proof (intro conjI impI)
  show "isConfigurationEqual left right \<longleftrightarrow>
      (left = None \<and> right = None) \<or>
      (\<exists>a b. left = Some a \<and> right = Some b \<and> cfg_id a = cfg_id b \<and> cfg_path a = cfg_path b
         \<and> cfg_encryptionKey a = cfg_encryptionKey b)"
    by (cases left; cases right) (auto simp: isConfigurationEqual_def)
next
  assume r: "useMMKV_renders cs initial_refs p0 = (hs, refs, p)"
  note inv = useMMKV_renders_refs [OF r]
  show "useMMKV (Some c) refs p =
          (if isConfigurationEqual (last_present cs) (Some c)
           then (the (cached_handle cs hs), refs, p)
           else (length (constructed p),
                 \<lparr>instance_current = Some (length (constructed p)),
                  lastConfiguration_current = Some c\<rparr>,
                 p\<lparr>constructed := constructed p @ [Some c]\<rparr>))"
    using inv by (auto simp: useMMKV_def new_MMKV_def isConfigurationEqual_eq)
  from inv show "cached_handle cs hs \<noteq> Some (length (constructed p))" by auto
next
  show "useMMKV None refs p = (fst (getDefaultInstance p), refs, snd (getDefaultInstance p))"
    by (simp add: useMMKV_def split: prod.splits)
qed

theorem useMMKV_reuse_witness:
  "useMMKV_renders [Some cfg_a] initial_refs fresh_process
     = ([0], \<lparr>instance_current = Some 0, lastConfiguration_current = Some cfg_a\<rparr>,
        \<lparr>defaultInstance = None, constructed = [Some cfg_a]\<rparr>)
   \<and> useMMKV (Some cfg_a) \<lparr>instance_current = Some 0, lastConfiguration_current = Some cfg_a\<rparr>
        \<lparr>defaultInstance = None, constructed = [Some cfg_a]\<rparr>
     = (0, \<lparr>instance_current = Some 0, lastConfiguration_current = Some cfg_a\<rparr>,
        \<lparr>defaultInstance = None, constructed = [Some cfg_a]\<rparr>)"
proof -
  have r: "useMMKV_renders [Some cfg_a] initial_refs fresh_process
     = ([0], \<lparr>instance_current = Some 0, lastConfiguration_current = Some cfg_a\<rparr>,
        \<lparr>defaultInstance = None, constructed = [Some cfg_a]\<rparr>)"
    by (simp add: useMMKV_def initial_refs_def fresh_process_def new_MMKV_def)
  from useMMKV_reuse [where cs = "[Some cfg_a]" and ?p0.0 = fresh_process and hs = "[0]"
      and refs = "\<lparr>instance_current = Some 0, lastConfiguration_current = Some cfg_a\<rparr>"
      and p = "\<lparr>defaultInstance = None, constructed = [Some cfg_a]\<rparr>" and c = cfg_a] r
  show ?thesis
    by (simp add: last_present_def cached_handle_def isConfigurationEqual_def)
qed

lemma perform_call_default:
  "defaultInstance p = Some d \<Longrightarrow> perform_call c p = (h, p') \<Longrightarrow>
     defaultInstance p' = Some d \<and> default_constructions p' = default_constructions p
   \<and> (wants_default c \<longrightarrow> h = d)"
  by (cases c)
     (auto simp: getDefaultInstance_def useMMKV_def resolve_instance_def new_MMKV_def
        default_constructions_def split: if_splits prod.splits option.splits)

lemma perform_call_first:
  "defaultInstance p = None \<Longrightarrow> perform_call c p = (h, p') \<Longrightarrow>
     (if wants_default c
      then defaultInstance p' = Some h \<and> default_constructions p' = Suc (default_constructions p)
      else defaultInstance p' = None \<and> default_constructions p' = default_constructions p)"
  by (cases c)
     (auto simp: getDefaultInstance_def useMMKV_def resolve_instance_def new_MMKV_def
        default_constructions_def split: if_splits prod.splits option.splits)

lemma perform_calls_default:
  "defaultInstance p = Some d \<Longrightarrow> perform_calls cs p = (hs, p') \<Longrightarrow>
     defaultInstance p' = Some d \<and> default_constructions p' = default_constructions p
   \<and> (\<forall>(c, h) \<in> set (zip cs hs). wants_default c \<longrightarrow> h = d)"
proof (induction cs arbitrary: p hs)
  case Nil
  then show ?case by simp
next
  case (Cons c cs)
  obtain h p1 where c1: "perform_call c p = (h, p1)" by (cases "perform_call c p") auto
  obtain hs1 where r: "perform_calls cs p1 = (hs1, p')" and hs: "hs = h # hs1"
    using Cons.prems(2) c1 by (auto split: prod.splits)
  note a = perform_call_default [OF Cons.prems(1) c1]
  from a have d1: "defaultInstance p1 = Some d" by simp
  note b = Cons.IH [OF d1 r]
  show ?case using a b by (simp add: hs)
qed

lemma perform_calls_first:
  "defaultInstance p = None \<Longrightarrow> perform_calls cs p = (hs, p') \<Longrightarrow>
     (if \<exists>c \<in> set cs. wants_default c
      then (\<exists>d. defaultInstance p' = Some d
              \<and> (\<forall>(c, h) \<in> set (zip cs hs). wants_default c \<longrightarrow> h = d))
           \<and> default_constructions p' = Suc (default_constructions p)
      else defaultInstance p' = None \<and> default_constructions p' = default_constructions p)"
proof (induction cs arbitrary: p hs)
  case Nil
  then show ?case by simp
next
  case (Cons c cs)
  obtain h p1 where c1: "perform_call c p = (h, p1)" by (cases "perform_call c p") auto
  obtain hs1 where r: "perform_calls cs p1 = (hs1, p')" and hs: "hs = h # hs1"
    using Cons.prems(2) c1 by (auto split: prod.splits)
  note a = perform_call_first [OF Cons.prems(1) c1]
  show ?case
  proof (cases "wants_default c")
    case True
    with a have d1: "defaultInstance p1 = Some h"
      and n1: "default_constructions p1 = Suc (default_constructions p)" by simp_all
    note b = perform_calls_default [OF d1 r]
    show ?thesis using True b n1 by (auto simp: hs)
  next
    case False
    with a have d1: "defaultInstance p1 = None"
      and n1: "default_constructions p1 = default_constructions p" by simp_all
    note b = Cons.IH [OF d1 r]
    show ?thesis using False b n1 by (auto simp: hs)
  qed
qed

text \<open>
  C6.  Over any sequence of calls that can reach the default handle, from any state of the
  process: every call of \<^verbatim>\<open>getDefaultInstance\<close>, every render of \<^verbatim>\<open>useMMKV\<close> with no
  configuration and every hook given no instance returns one and the same handle \<open>d\<close>,
  which is the default handle of the process from the first such call on and for ever
  (nothing resets it); \<^verbatim>\<open>new MMKV()\<close> runs once, at the first such call, if the process
  had no default handle, and never otherwise.
\<close>

theorem default_instance_once:
  assumes run: "perform_calls cs p = (hs, p')"
  shows
    "(\<exists>d. (\<forall>(c, h) \<in> set (zip cs hs). wants_default c \<longrightarrow> h = d)
         \<and> (defaultInstance p \<noteq> None \<or> (\<exists>c \<in> set cs. wants_default c)
              \<longrightarrow> defaultInstance p' = Some d)
         \<and> (defaultInstance p \<noteq> None \<longrightarrow> defaultInstance p = Some d))
   \<and> default_constructions p' =
       default_constructions p
         + (if defaultInstance p = None \<and> (\<exists>c \<in> set cs. wants_default c) then 1 else 0)
   \<and> (defaultInstance p = None \<and> \<not> (\<exists>c \<in> set cs. wants_default c)
        \<longrightarrow> defaultInstance p' = None)"
proof (cases "defaultInstance p")
  case None
  note a = perform_calls_first [OF None run]
  show ?thesis
  proof (cases "\<exists>c \<in> set cs. wants_default c")
    case True
    with a None show ?thesis by auto
  next
    case False
    with a None show ?thesis by (auto dest: set_zip_leftD)
  qed
next
  case (Some d)
  note a = perform_calls_default [OF Some run]
  with Some show ?thesis by auto
qed

theorem default_instance_once_witness:
  "perform_calls [UseMMKV initial_refs (Some cfg_a), Hook None, GetDefaultInstance,
       UseMMKV initial_refs None, Hook (Some 0)] fresh_process
     = ([0, 1, 1, 1, 0], \<lparr>defaultInstance = Some 1, constructed = [Some cfg_a, None]\<rparr>)
   \<and> default_constructions \<lparr>defaultInstance = Some 1, constructed = [Some cfg_a, None]\<rparr> = 1
   \<and> default_constructions fresh_process = 0"
proof -
  have r: "perform_calls [UseMMKV initial_refs (Some cfg_a), Hook None, GetDefaultInstance,
       UseMMKV initial_refs None, Hook (Some 0)] fresh_process
     = ([0, 1, 1, 1, 0], \<lparr>defaultInstance = Some 1, constructed = [Some cfg_a, None]\<rparr>)"
    by (simp add: useMMKV_def initial_refs_def fresh_process_def new_MMKV_def
        getDefaultInstance_def resolve_instance_def)
  have n: "default_constructions \<lparr>defaultInstance = Some 1, constructed = [Some cfg_a, None]\<rparr> = 1
      \<and> default_constructions fresh_process = 0"
    using default_instance_once [OF r]
    by (simp add: fresh_process_def default_constructions_def)
  from r n show ?thesis by simp
qed

section \<open>Properties of the store, the notifier and the bindings\<close>

lemma setValue_frame [simp]:
  "stores (setValue b v w) = stores w"
  "next_listener (setValue b v w) = next_listener w"
  "pending (setValue b v w) = pending w"
  "delivered (setValue b v w) = delivered w"
  "listener_hooks (setValue b v w) = listener_hooks w"
  "calls (setValue b v w) = calls w"
  by (simp_all add: setValue_def split: option.splits)

lemma invoke_frame [simp]:
  "stores (invoke c k w) = stores w"
  "next_listener (invoke c k w) = next_listener w"
  "pending (invoke c k w) = pending w"
  "delivered (invoke c k w) = delivered w"
  "listener_hooks (invoke c k w) = listener_hooks w"
  by (cases c; simp split: option.splits)+

lemma deliver1_frame [simp]:
  "stores (deliver1 n w) = stores w"
  "next_listener (deliver1 n w) = next_listener w"
  "pending (deliver1 n w) = pending w"
  "listener_hooks (deliver1 n w) = listener_hooks w"
  by (simp_all add: deliver1_def split: prod.splits option.splits)

lemma fold_deliver1_frame [simp]:
  "stores (fold deliver1 ns w) = stores w"
  "next_listener (fold deliver1 ns w) = next_listener w"
  "pending (fold deliver1 ns w) = pending w"
  "listener_hooks (fold deliver1 ns w) = listener_hooks w"
  by (induction ns arbitrary: w) simp_all

lemma flush_frame [simp]:
  "stores (flush w) = stores w"
  "next_listener (flush w) = next_listener w"
  "pending (flush w) = []"
  "listener_hooks (flush w) = listener_hooks w"
  by (simp_all add: flush_def)


lemma invoke_pending:
  "invoke c k (w\<lparr>pending := p, delivered := d\<rparr>)
     = (invoke c k (w\<lparr>delivered := d\<rparr>))\<lparr>pending := p\<rparr>"
  by (cases c) (simp_all add: setValue_def split: option.splits)

lemma deliver1_pending: "deliver1 n (w\<lparr>pending := p\<rparr>) = (deliver1 n w)\<lparr>pending := p\<rparr>"
proof -
  obtain h i k where n: "n = (h, i, k)" by (cases n) auto
  show ?thesis
    by (simp add: n deliver1_def invoke_pending split: option.splits)
qed

text \<open>Delivering every scheduled notification is delivering the oldest one, again and again.\<close>

lemma flush_deliver: "(deliver ^^ length (pending w)) w = flush w"
proof (induction "pending w" arbitrary: w)
  case Nil
  then have "pending w = []" by simp
  then show ?case by (simp add: flush_def)
next
  case (Cons n ns)
  from Cons.hyps(2) have p: "pending w = n # ns" by simp
  let ?w = "deliver w"
  have d: "?w = deliver1 n (w\<lparr>pending := ns\<rparr>)" by (simp add: deliver_def p)
  then have pw: "ns = pending ?w" by simp
  have "(deliver ^^ length (pending w)) w = (deliver ^^ length (pending ?w)) ?w"
    by (simp add: p pw [symmetric] funpow_swap1)
  also have "\<dots> = flush ?w" by (rule Cons.hyps(1) [OF pw])
  also have "\<dots> = flush w"
    by (simp add: flush_def p d deliver1_pending)
  finally show ?case .
qed

text \<open>What one delivery does to a binding.\<close>

lemma invoke_binding:
  "bindings (invoke c k w) b =
     (case c of
        HookListener b' g' key' m' \<Rightarrow>
          if b' = b \<and> k = key'
          then map_option (\<lambda>bd. bd\<lparr>b_value := run_getter g' (stores w m') key'\<rparr>) (bindings w b)
          else bindings w b
      | RefListener r \<Rightarrow> bindings w b)"
  by (cases c) (auto simp: setValue_def split: option.splits)

lemma deliver1_binding:
  "bindings (deliver1 (h', i, k) w) b =
     (case map_of (listeners (stores w h')) i of
        Some (HookListener b' g' key' m') \<Rightarrow>
          if b' = b \<and> k = key'
          then map_option (\<lambda>bd. bd\<lparr>b_value := run_getter g' (stores w m') key'\<rparr>) (bindings w b)
          else bindings w b
      | _ \<Rightarrow> bindings w b)"
  by (simp add: deliver1_def invoke_binding split: option.splits closure.splits)


lemma deliver1_binding_Some:
  assumes bd: "bindings w b = Some bd"
  shows "\<exists>bd'. bindings (deliver1 n w) b = Some bd' \<and> b_key bd' = b_key bd
           \<and> b_mmkv bd' = b_mmkv bd \<and> b_listener bd' = b_listener bd
           \<and> b_valueRef bd' = b_valueRef bd"
proof -
  obtain h' i k where n: "n = (h', i, k)" by (cases n) auto
  show ?thesis
    unfolding n deliver1_binding bd
    by (simp split: option.splits closure.splits)
qed

lemma bound_binding:
  assumes "bound w b g key h"
  obtains bd where "bindings w b = Some bd" and "b_key bd = key" and "b_mmkv bd = h"
    and "map_of (listeners (stores w h)) (b_listener bd) = Some (HookListener b g key h)"
proof -
  from assms have c:
    "case bindings w b of
       None \<Rightarrow> False
     | Some bd \<Rightarrow>
         b_key bd = key \<and> b_mmkv bd = h
       \<and> map_of (listeners (stores w h)) (b_listener bd) = Some (HookListener b g key h)"
    unfolding bound_def by (rule conjunct1)
  show ?thesis
  proof (cases "bindings w b")
    case None
    with c show ?thesis by simp
  next
    case (Some bd)
    with c that [of bd] show ?thesis by simp
  qed
qed

lemma bound_only:
  assumes "bound w b g key h"
    and "map_of (listeners (stores w h')) i = Some (HookListener b g' k' m')"
  shows "g' = g \<and> k' = key \<and> m' = h"
  using assms unfolding bound_def by blast

lemma bound_cong:
  "(\<And>h. listeners (stores w' h) = listeners (stores w h)) \<Longrightarrow>
   bindings w b = Some bd \<Longrightarrow> bindings w' b = Some bd' \<Longrightarrow>
   b_key bd' = b_key bd \<Longrightarrow> b_mmkv bd' = b_mmkv bd \<Longrightarrow> b_listener bd' = b_listener bd \<Longrightarrow>
   bound w' b g key h = bound w b g key h"
  by (simp add: bound_def)

lemma deliver1_bound:
  assumes "bound w b g key h"
  shows "bound (deliver1 n w) b g key h"
proof -
  from assms obtain bd where bd: "bindings w b = Some bd" by (rule bound_binding)
  from deliver1_binding_Some [OF bd] obtain bd' where
    bd': "bindings (deliver1 n w) b = Some bd'" and same: "b_key bd' = b_key bd"
    "b_mmkv bd' = b_mmkv bd" "b_listener bd' = b_listener bd" by blast
  have "bound (deliver1 n w) b g key h = bound w b g key h"
    by (rule bound_cong [OF _ bd bd' same]) simp
  with assms show ?thesis by simp
qed

lemma deliver1_synced:
  assumes "bound w b g key h" and "synced w b g key h"
  shows "synced (deliver1 n w) b g key h"
proof -
  obtain h' i k where n: "n = (h', i, k)" by (cases n) auto
  from assms(2) obtain bd where bd: "bindings w b = Some bd"
    and v: "b_value bd = run_getter g (stores w h) key"
    by (auto simp: synced_def split: option.splits)
  note only = bound_only [OF assms(1), of h' i]
  show ?thesis
  proof (cases "map_of (listeners (stores w h')) i")
    case None
    then show ?thesis by (simp add: synced_def n deliver1_binding bd v)
  next
    case (Some c)
    show ?thesis
    proof (cases c)
      case (HookListener b' g' key' m')
      show ?thesis
      proof (cases "b' = b")
        case True
        with only Some HookListener have "g' = g \<and> key' = key \<and> m' = h" by blast
        then show ?thesis
          by (simp add: synced_def n deliver1_binding bd v Some HookListener)
      next
        case False
        then show ?thesis
          by (simp add: synced_def n deliver1_binding bd v Some HookListener)
      qed
    next
      case (RefListener r)
      then show ?thesis by (simp add: synced_def n deliver1_binding bd v Some)
    qed
  qed
qed

lemma deliver1_syncs:
  assumes "bound w b g key h" and bd: "bindings w b = Some bd"
  shows "synced (deliver1 (h, b_listener bd, key) w) b g key h"
proof -
  from assms have "map_of (listeners (stores w h)) (b_listener bd) = Some (HookListener b g key h)"
    by (elim bound_binding) simp
  then show ?thesis
    by (simp add: synced_def deliver1_binding bd)
qed

lemma fold_deliver1_bound:
  "bound w b g key h \<Longrightarrow> bound (fold deliver1 ns w) b g key h"
  by (induction ns arbitrary: w) (simp_all add: deliver1_bound)

lemma fold_deliver1_synced:
  "bound w b g key h \<Longrightarrow> synced w b g key h \<Longrightarrow> synced (fold deliver1 ns w) b g key h"
  by (induction ns arbitrary: w) (simp_all add: deliver1_bound deliver1_synced)

lemma fold_deliver1_syncs:
  "bound w b g key h \<Longrightarrow> bindings w b = Some bd \<Longrightarrow> (h, b_listener bd, key) \<in> set ns \<Longrightarrow>
   synced (fold deliver1 ns w) b g key h"
proof (induction ns arbitrary: w bd)
  case Nil
  then show ?case by simp
next
  case (Cons n ns)
  show ?case
  proof (cases "n = (h, b_listener bd, key)")
    case True
    have "synced (deliver1 n w) b g key h"
      unfolding True by (rule deliver1_syncs [OF Cons.prems(1,2)])
    then show ?thesis
      by (simp add: fold_deliver1_synced deliver1_bound Cons.prems(1))
  next
    case False
    with Cons.prems(3) have mem: "(h, b_listener bd, key) \<in> set ns" by simp
    obtain bd' where bd': "bindings (deliver1 n w) b = Some bd'" "b_listener bd' = b_listener bd"
      using deliver1_binding_Some [OF Cons.prems(2)] by blast
    have "synced (fold deliver1 ns (deliver1 n w)) b g key h"
      by (rule Cons.IH [OF deliver1_bound [OF Cons.prems(1)] bd'(1)]) (simp add: bd'(2) mem)
    then show ?thesis by simp
  qed
qed


lemma notify_frame [simp]:
  "stores (notify h k w) = stores w"
  "bindings (notify h k w) = bindings w"
  "next_listener (notify h k w) = next_listener w"
  "delivered (notify h k w) = delivered w"
  "listener_hooks (notify h k w) = listener_hooks w"
  "calls (notify h k w) = calls w"
  "pending (notify h k w) = pending w @ map (\<lambda>(i, c). (h, i, k)) (listeners (stores w h))"
  by (simp_all add: notify_def)

lemma mmkv_delete_frame [simp]:
  "listeners (stores (mmkv_delete h k w) h') = listeners (stores w h')"
  "bindings (mmkv_delete h k w) = bindings w"
  "next_listener (mmkv_delete h k w) = next_listener w"
  "delivered (mmkv_delete h k w) = delivered w"
  "listener_hooks (mmkv_delete h k w) = listener_hooks w"
  "calls (mmkv_delete h k w) = calls w"
  "pending (mmkv_delete h k w) = pending w @ map (\<lambda>(i, c). (h, i, k)) (listeners (stores w h))"
  by (simp_all add: mmkv_delete_def)

lemma mmkv_set_frame [simp]:
  "listeners (stores (snd (mmkv_set h k v w)) h') = listeners (stores w h')"
  "bindings (snd (mmkv_set h k v w)) = bindings w"
  "next_listener (snd (mmkv_set h k v w)) = next_listener w"
  "delivered (snd (mmkv_set h k v w)) = delivered w"
  "listener_hooks (snd (mmkv_set h k v w)) = listener_hooks w"
  "calls (snd (mmkv_set h k v w)) = calls w"
  by (simp_all add: mmkv_set_def)

lemma mmkv_set_pending:
  "fst (mmkv_set h k v w) = None \<Longrightarrow>
   pending (snd (mmkv_set h k v w)) = pending w @ map (\<lambda>(i, c). (h, i, k)) (listeners (stores w h))"
  by (auto simp: mmkv_set_def split: if_splits)

lemma perform_frame [simp]:
  "listeners (stores (snd (perform h c w)) h') = listeners (stores w h')"
  "bindings (snd (perform h c w)) = bindings w"
  "next_listener (snd (perform h c w)) = next_listener w"
  "delivered (snd (perform h c w)) = delivered w"
  "listener_hooks (snd (perform h c w)) = listener_hooks w"
  "calls (snd (perform h c w)) = calls w"
  by (cases c; simp)+

lemma perform_pending:
  "fst (perform h c w) = None \<Longrightarrow>
   pending (snd (perform h c w))
     = pending w @ map (\<lambda>(i, c'). (h, i, call_key c)) (listeners (stores w h))"
  by (cases c) (simp_all add: mmkv_set_pending)

lemma perform_notifies:
  assumes "perform h c w = (None, w1)" and "map_of (listeners (stores w h)) i = Some cl"
  shows "(h, i, call_key c) \<in> set (pending w1)"
proof -
  from assms(2) have "(i, cl) \<in> set (listeners (stores w h))" by (rule map_of_SomeD)
  then have "(h, i, call_key c) \<in> (\<lambda>(i, c'). (h, i, call_key c)) ` set (listeners (stores w h))"
    by (rule rev_image_eqI) simp
  moreover have "pending w1 = pending w @ map (\<lambda>(i, c'). (h, i, call_key c)) (listeners (stores w h))"
    using perform_pending [of h c w] assms(1) by simp
  ultimately show ?thesis by simp
qed

lemma flush_syncs:
  assumes b: "bound w b g key h" and p: "perform h c w = (None, w1)" and k: "call_key c = key"
  shows "synced (flush w1) b g key h"
proof -
  from b obtain bd where bd: "bindings w b = Some bd"
    and l: "map_of (listeners (stores w h)) (b_listener bd) = Some (HookListener b g key h)"
    by (rule bound_binding)
  let ?w = "w1\<lparr>pending := []\<rparr>"
  have w1: "w1 = snd (perform h c w)" using p by simp
  have bd1: "bindings ?w b = Some bd" by (simp add: w1 bd)
  have "bound ?w b g key h = bound w b g key h"
    by (rule bound_cong [OF _ bd bd1]) (simp_all add: w1)
  with b have b1: "bound ?w b g key h" by simp
  have mem: "(h, b_listener bd, key) \<in> set (pending w1)"
    using perform_notifies [OF p l] k by simp
  show ?thesis
    unfolding flush_def by (rule fold_deliver1_syncs [OF b1 bd1 mem])
qed

lemma run_setter_perform:
  assumes "run_setter setter a w = (None, w1)" and "bindings w a = Some bda"
  shows "\<exists>c. setter (b_key bda) (b_valueRef bda) = Inr c \<and> perform (b_mmkv bda) c w = (None, w1)"
proof (cases "setter (b_key bda) (b_valueRef bda)")
  case (Inl e)
  with assms show ?thesis by (simp add: run_setter_def)
next
  case (Inr c)
  with assms show ?thesis by (simp add: run_setter_def)
qed

lemma hook_set_cases:
  "hook_set fs key r v = Inr (CallSet key (normalize fs r v))
   \<or> hook_set fs key r v = Inr (CallDelete key)
   \<or> hook_set fs key r v = Inl (unsupported (typeof (normalize fs r v)))"
  by (simp add: hook_set_def Let_def)

lemma hook_set_key: "hook_set fs key r v = Inr c \<Longrightarrow> call_key c = key"
  using hook_set_cases [of fs key r v] by auto

lemma createMMKVHook_mount:
  "bindings w b = None \<Longrightarrow>
   createMMKVHook g b key h w =
     (run_getter g (stores w h) key,
      w\<lparr>stores := (stores w)
           (h := (stores w h)\<lparr>listeners :=
                   listeners (stores w h) @ [(next_listener w, HookListener b g key h)]\<rparr>),
        next_listener := Suc (next_listener w),
        bindings := (bindings w)
           (b \<mapsto> \<lparr>b_key = key, b_mmkv = h, b_value = run_getter g (stores w h) key,
                  b_valueRef = run_getter g (stores w h) key, b_listener = next_listener w\<rparr>)\<rparr>)"
  by (simp add: createMMKVHook_def addOnValueChangedListener_def Let_def)


lemma empty_world_fields [simp]:
  "stores empty_world h = \<lparr>contents = Map.empty, listeners = []\<rparr>"
  "next_listener empty_world = 0"
  "pending empty_world = []"
  "delivered empty_world = []"
  "bindings empty_world = Map.empty"
  "listener_hooks empty_world = Map.empty"
  "calls empty_world = []"
  by (simp_all add: empty_world_def)

lemma two_bindings_fields:
  "bindings two_bindings (Suc 0) = Some \<lparr>b_key = ''k'', b_mmkv = 0, b_value = JUndefined,
                         b_valueRef = JUndefined, b_listener = 1\<rparr>"
  "bindings two_bindings 0 = Some \<lparr>b_key = ''k'', b_mmkv = 0, b_value = JUndefined,
                         b_valueRef = JUndefined, b_listener = 0\<rparr>"
  "listeners (stores two_bindings h) =
     (if h = 0 then [(0, HookListener 0 GetString ''k'' 0), (1, HookListener 1 GetString ''k'' 0)]
      else [])"
  "contents (stores two_bindings h) = Map.empty"
  "pending two_bindings = []"
  by (simp_all add: two_bindings_def createMMKVHook_mount mmkv_getString_def)

lemma two_bindings_bound: "bound two_bindings 1 GetString ''k'' 0"
  by (simp add: bound_def two_bindings_fields)


text \<open>
  C2.  Let the binding \<open>b\<close> be bound to \<open>(key, h)\<close>.  A change notification for \<open>key\<close>
  delivered to its listener sets its cached value to a fresh typed get on \<open>h\<close>.  Hence,
  whoever changes \<open>key\<close> on \<open>h\<close> with a \<^verbatim>\<open>set\<close> or \<^verbatim>\<open>delete\<close>, once the notifications
  are delivered the cached value of \<open>b\<close> is what a fresh typed get returns; in particular
  after a write through the setter of any binding \<open>a\<close> on the same \<open>(key, h)\<close> (another
  binding, or \<open>b\<close> itself), in which \<open>b\<close> makes no call on the store.
\<close>

theorem change_updates_binding:
  assumes b: "bound w b g key h"
  shows
    "(\<forall>bd. bindings w b = Some bd \<longrightarrow>
        bindings (invoke (HookListener b g key h) key w) b
          = Some (bd\<lparr>b_value := run_getter g (stores w h) key\<rparr>))
     \<and> (\<forall>c w1. perform h c w = (None, w1) \<and> call_key c = key \<longrightarrow>
          synced (flush w1) b g key h)
     \<and> (\<forall>a bda fs v w2.
          bindings w a = Some bda \<and> b_key bda = key \<and> b_mmkv bda = h
          \<and> binding_set fs a v w = (None, w2) \<longrightarrow>
          synced (flush w2) b g key h)"
proof (intro conjI allI impI)
  fix bd
  assume "bindings w b = Some bd"
  then show "bindings (invoke (HookListener b g key h) key w) b
        = Some (bd\<lparr>b_value := run_getter g (stores w h) key\<rparr>)"
    by (simp add: setValue_def)
next
  fix c w1
  assume "perform h c w = (None, w1) \<and> call_key c = key"
  then show "synced (flush w1) b g key h"
    using flush_syncs [OF b] by blast
next
  fix a bda fs v w2
  assume a: "bindings w a = Some bda \<and> b_key bda = key \<and> b_mmkv bda = h
        \<and> binding_set fs a v w = (None, w2)"
  then have r: "run_setter (\<lambda>key r. hook_set fs key r v) a w = (None, w2)"
    and bda: "bindings w a = Some bda" by (simp_all add: binding_set_def)
  from run_setter_perform [OF r bda] obtain c where
    c: "hook_set fs (b_key bda) (b_valueRef bda) v = Inr c"
    and p: "perform (b_mmkv bda) c w = (None, w2)" by blast
  from hook_set_key [OF c] a have k: "call_key c = key" by simp
  from a p have p': "perform h c w = (None, w2)" by simp
  from b p' k show "synced (flush w2) b g key h" by (rule flush_syncs)
qed

theorem change_updates_binding_witness:
  "bound two_bindings 1 GetString ''k'' 0
   \<and> bindings two_bindings 0
       = Some \<lparr>b_key = ''k'', b_mmkv = 0, b_value = JUndefined, b_valueRef = JUndefined,
               b_listener = 0\<rparr>
   \<and> fst (binding_set snapshot 0 (JString ''x'') two_bindings) = None
   \<and> synced (flush (snd (binding_set snapshot 0 (JString ''x'') two_bindings))) 1 GetString ''k'' 0
   \<and> run_getter GetString
         (stores (flush (snd (binding_set snapshot 0 (JString ''x'') two_bindings))) 0) ''k''
       = JString ''x''"
proof -
  let ?w2 = "snd (binding_set snapshot 0 (JString ''x'') two_bindings)"
  have b: "bound two_bindings 1 GetString ''k'' 0" by (rule two_bindings_bound)
  have a: "bindings two_bindings 0
       = Some \<lparr>b_key = ''k'', b_mmkv = 0, b_value = JUndefined, b_valueRef = JUndefined,
               b_listener = 0\<rparr>"
    by (simp add: two_bindings_fields)
  have s: "binding_set snapshot 0 (JString ''x'') two_bindings = (None, ?w2)"
    by (simp add: binding_set_def run_setter_def two_bindings_fields hook_set_def normalize_def
        mmkv_set_def)
  have g: "run_getter GetString (stores (flush ?w2) 0) ''k'' = JString ''x''"
    by (simp add: binding_set_def run_setter_def two_bindings_fields hook_set_def normalize_def
        mmkv_set_def mmkv_getString_def)
  note third = change_updates_binding [OF b, THEN conjunct2, THEN conjunct2, rule_format]
  have "synced (flush ?w2) 1 GetString ''k'' 0"
  proof (rule third [where a = 0 and fs = snapshot and v = "JString ''x''"], intro conjI)
    show "bindings two_bindings 0
       = Some \<lparr>b_key = ''k'', b_mmkv = 0, b_value = JUndefined, b_valueRef = JUndefined,
               b_listener = 0\<rparr>" by (rule a)
    show "binding_set snapshot 0 (JString ''x'') two_bindings = (None, ?w2)" by (rule s)
  qed simp_all
  moreover from s have "fst (binding_set snapshot 0 (JString ''x'') two_bindings) = None"
    by (rule arg_cong [where f = fst, THEN trans]) simp
  ultimately show ?thesis using b a g by simp
qed

section \<open>Properties of the setters\<close>

lemma typeof_strings [simp]:
  "typeof v = ''undefined'' \<longleftrightarrow> v = JUndefined"
  "typeof v = ''function'' \<longleftrightarrow> (\<exists>f. v = JFunction f)"
  by (cases v; simp)+

lemma hook_set_supported:
  "typeof (normalize fs r v) = ''boolean'' \<or> typeof (normalize fs r v) = ''number''
     \<or> typeof (normalize fs r v) = ''string'' \<Longrightarrow>
   hook_set fs key r v = Inr (CallSet key (normalize fs r v))"
  by (auto simp: hook_set_def Let_def)

lemma hook_set_undefined:
  "typeof (normalize fs r v) = ''undefined'' \<Longrightarrow> hook_set fs key r v = Inr (CallDelete key)"
  by (simp add: hook_set_def Let_def)

lemma hook_set_unsupported:
  "typeof (normalize fs r v) \<notin> {''boolean'', ''number'', ''string'', ''undefined''} \<Longrightarrow>
   hook_set fs key r v = Inl (unsupported (typeof (normalize fs r v)))"
  by (simp add: hook_set_def Let_def)

lemma binding_set_eq:
  "bindings w b = Some bd \<Longrightarrow>
   binding_set fs b v w =
     (case hook_set fs (b_key bd) (b_valueRef bd) v of
        Inl e \<Rightarrow> (Some e, w)
      | Inr c \<Rightarrow> perform (b_mmkv bd) c w)"
  by (simp add: binding_set_def run_setter_def)

text \<open>
  C1.  A call of the setter of a mounted binding with \<open>v\<close>.  The normalized value is \<open>v\<close>,
  or, if \<open>v\<close> is a function, \<open>v\<close> applied to \<^verbatim>\<open>valueRef.current\<close> (the cached value as of
  the binding's latest render, whatever the store holds now).  If it is a boolean, a
  number or a string, the setter calls \<^verbatim>\<open>set(key, value)\<close> on the bound handle; if it is
  undefined, \<^verbatim>\<open>delete(key)\<close>; otherwise it throws the error of line 71 and the world is
  as before.
\<close>

theorem typed_setter_dispatch:
  assumes bd: "bindings w b = Some bd"
  shows
    "(let newValue = (if typeof v = ''function'' then call_function fs v (b_valueRef bd) else v)
      in (typeof newValue = ''boolean'' \<or> typeof newValue = ''number''
            \<or> typeof newValue = ''string'' \<longrightarrow>
              hook_set fs (b_key bd) (b_valueRef bd) v = Inr (CallSet (b_key bd) newValue)
            \<and> binding_set fs b v w = mmkv_set (b_mmkv bd) (b_key bd) newValue w)
       \<and> (typeof newValue = ''undefined'' \<longrightarrow>
              hook_set fs (b_key bd) (b_valueRef bd) v = Inr (CallDelete (b_key bd))
            \<and> binding_set fs b v w = (None, mmkv_delete (b_mmkv bd) (b_key bd) w))
       \<and> (typeof newValue \<notin> {''boolean'', ''number'', ''string'', ''undefined''} \<longrightarrow>
              hook_set fs (b_key bd) (b_valueRef bd) v
                = Inl (Error (''MMKV: Type '' @ typeof newValue @ '' is not supported!''))
            \<and> binding_set fs b v w
                = (Some (Error (''MMKV: Type '' @ typeof newValue @ '' is not supported!'')), w)))"
proof -
  let ?nv = "normalize fs (b_valueRef bd) v"
  have n: "(if typeof v = ''function'' then call_function fs v (b_valueRef bd) else v) = ?nv"
    by (simp only: normalize_def)
  have 1: "typeof ?nv = ''boolean'' \<or> typeof ?nv = ''number'' \<or> typeof ?nv = ''string'' \<longrightarrow>
              hook_set fs (b_key bd) (b_valueRef bd) v = Inr (CallSet (b_key bd) ?nv)
            \<and> binding_set fs b v w = mmkv_set (b_mmkv bd) (b_key bd) ?nv w"
    by (simp add: binding_set_eq [OF bd] hook_set_supported)
  have 2: "typeof ?nv = ''undefined'' \<longrightarrow>
              hook_set fs (b_key bd) (b_valueRef bd) v = Inr (CallDelete (b_key bd))
            \<and> binding_set fs b v w = (None, mmkv_delete (b_mmkv bd) (b_key bd) w)"
    using hook_set_undefined [of fs "b_valueRef bd" v "b_key bd"]
    by (simp add: binding_set_eq [OF bd])
  have 3: "typeof ?nv \<notin> {''boolean'', ''number'', ''string'', ''undefined''} \<longrightarrow>
              hook_set fs (b_key bd) (b_valueRef bd) v
                = Inl (Error (''MMKV: Type '' @ typeof ?nv @ '' is not supported!''))
            \<and> binding_set fs b v w
                = (Some (Error (''MMKV: Type '' @ typeof ?nv @ '' is not supported!'')), w)"
    using hook_set_unsupported [of fs "b_valueRef bd" v "b_key bd"]
    by (simp add: binding_set_eq [OF bd] unsupported_def)
  from 1 2 3 show ?thesis unfolding Let_def n by blast
qed


lemma stale_world_fields:
  "bindings stale_world 0 = Some \<lparr>b_key = ''n'', b_mmkv = 0, b_value = JNumber 1,
      b_valueRef = JNumber 1, b_listener = 0\<rparr>"
  "mmkv_getNumber (stores stale_world 0) ''n'' = JNumber 5"
  by (simp_all add: stale_world_def mmkv_set_def createMMKVHook_mount mmkv_getNumber_def)

theorem typed_setter_dispatch_witness:
  "bindings stale_world 0 = Some \<lparr>b_key = ''n'', b_mmkv = 0, b_value = JNumber 1,
      b_valueRef = JNumber 1, b_listener = 0\<rparr>
   \<and> mmkv_getNumber (stores stale_world 0) ''n'' = JNumber 5
   \<and> hook_set increment ''n'' (JNumber 1) (JFunction 0) = Inr (CallSet ''n'' (JNumber 2))
   \<and> binding_set increment 0 (JFunction 0) stale_world = mmkv_set 0 ''n'' (JNumber 2) stale_world"
  using typed_setter_dispatch [OF stale_world_fields(1), of "JFunction 0" increment]
    stale_world_fields
  by (simp add: increment_def Let_def)

text \<open>
  C3, as stated, fails: a function is a value outside boolean, number, string and
  undefined, and the setter given a function that returns a string throws nothing and
  calls \<^verbatim>\<open>set\<close>; a get on the key afterwards returns the new string.
\<close>

theorem unsupported_type_rejected_counterexample:
  "typeof (JFunction 0) \<notin> {''boolean'', ''number'', ''string'', ''undefined''}
   \<and> hook_set always_x ''k'' JUndefined (JFunction 0) = Inr (CallSet ''k'' (JString ''x''))
   \<and> fst (binding_set always_x 0 (JFunction 0) two_bindings) = None
   \<and> mmkv_getString (stores two_bindings 0) ''k'' = JUndefined
   \<and> mmkv_getString (stores (snd (binding_set always_x 0 (JFunction 0) two_bindings)) 0) ''k''
       = JString ''x''"
  by (simp add: hook_set_def normalize_def always_x_def binding_set_def run_setter_def
      two_bindings_fields mmkv_set_def mmkv_getString_def)

text \<open>
  C3, amended.  When the normalized value (\<open>v\<close>, or \<open>v\<close> applied to \<^verbatim>\<open>valueRef.current\<close> if
  \<open>v\<close> is a function) is of a type outside boolean, number, string and undefined, the
  setter throws the error of line 71 without having called \<^verbatim>\<open>set\<close> or \<^verbatim>\<open>delete\<close>: the world
  is as before, so every get and \<^verbatim>\<open>contains\<close> answers as before.
\<close>

theorem unsupported_type_rejected:
  assumes bd: "bindings w b = Some bd"
    and t: "typeof (normalize fs (b_valueRef bd) v) \<notin> {''boolean'', ''number'', ''string'', ''undefined''}"
  shows
    "hook_set fs (b_key bd) (b_valueRef bd) v
       = Inl (Error (''MMKV: Type '' @ typeof (normalize fs (b_valueRef bd) v) @ '' is not supported!''))
     \<and> binding_set fs b v w
       = (Some (Error (''MMKV: Type '' @ typeof (normalize fs (b_valueRef bd) v) @ '' is not supported!'')), w)
     \<and> run_getter g (stores (snd (binding_set fs b v w)) h) k = run_getter g (stores w h) k
     \<and> mmkv_contains (stores (snd (binding_set fs b v w)) h) k = mmkv_contains (stores w h) k"
  using hook_set_unsupported [OF t, of "b_key bd"]
  by (simp add: binding_set_eq [OF bd] unsupported_def)

theorem unsupported_type_rejected_witness:
  "bindings two_bindings 0 = Some \<lparr>b_key = ''k'', b_mmkv = 0, b_value = JUndefined,
      b_valueRef = JUndefined, b_listener = 0\<rparr>
   \<and> typeof (normalize snapshot JUndefined (JObject [(''a'', JNumber 1)]))
       \<notin> {''boolean'', ''number'', ''string'', ''undefined''}
   \<and> binding_set snapshot 0 (JObject [(''a'', JNumber 1)]) two_bindings
       = (Some (Error ''MMKV: Type object is not supported!''), two_bindings)"
proof -
  have t: "typeof (normalize snapshot (b_valueRef \<lparr>b_key = ''k'', b_mmkv = 0, b_value = JUndefined,
      b_valueRef = JUndefined, b_listener = 0\<rparr>) (JObject [(''a'', JNumber 1)]))
       \<notin> {''boolean'', ''number'', ''string'', ''undefined''}"
    by (simp add: normalize_def)
  from unsupported_type_rejected [OF two_bindings_fields(2) t] two_bindings_fields(2)
  show ?thesis by (simp add: normalize_def)
qed

text \<open>
  C10.  \<^verbatim>\<open>null\<close> given to the setter of a typed hook: \<^verbatim>\<open>typeof null\<close> is \<^verbatim>\<open>'object'\<close>, so the
  setter throws the error of line 71 and the world is as before.  \<^verbatim>\<open>null\<close> given to the
  setter of the object hook: as with \<^verbatim>\<open>undefined\<close>, the key is deleted.
\<close>

theorem null_setter:
  assumes bd: "bindings w b = Some bd"
  shows
    "hook_set fs (b_key bd) (b_valueRef bd) JNull = Inl (Error ''MMKV: Type object is not supported!'')
     \<and> binding_set fs b JNull w = (Some (Error ''MMKV: Type object is not supported!''), w)
     \<and> useMMKVObject_setValue stringify fs (b_key bd) (b_valueRef bd) JNull
         = Inr (CallDelete (b_key bd))
     \<and> object_set stringify fs b JNull w = (None, mmkv_delete (b_mmkv bd) (b_key bd) w)
     \<and> object_set stringify fs b JNull w = object_set stringify fs b JUndefined w
     \<and> \<not> mmkv_contains (stores (snd (object_set stringify fs b JNull w)) (b_mmkv bd)) (b_key bd)"
  by (simp add: bd binding_set_def object_set_def run_setter_def useMMKVObject_setValue_def
      hook_set_def normalize_def unsupported_def mmkv_delete_def mmkv_contains_def)

lemma written_world_fields:
  "bindings written_world 0 = Some \<lparr>b_key = ''k'', b_mmkv = 0, b_value = JString json_a1,
      b_valueRef = JUndefined, b_listener = 0\<rparr>"
  "bindings written_world (Suc 0) = Some \<lparr>b_key = ''k'', b_mmkv = 0, b_value = JString json_a1,
      b_valueRef = JUndefined, b_listener = 1\<rparr>"
  "contents (stores written_world 0) ''k'' = Some (JString json_a1)"
  "listeners (stores written_world h) =
     (if h = 0 then [(0, HookListener 0 GetString ''k'' 0), (1, HookListener 1 GetString ''k'' 0)]
      else [])"
  by (simp_all add: written_world_def flush_def deliver1_def binding_set_def run_setter_def
      hook_set_def normalize_def mmkv_set_def two_bindings_fields setValue_def mmkv_getString_def)

theorem null_setter_witness:
  "bindings written_world 0 = Some \<lparr>b_key = ''k'', b_mmkv = 0, b_value = JString json_a1,
      b_valueRef = JUndefined, b_listener = 0\<rparr>
   \<and> mmkv_contains (stores written_world 0) ''k''
   \<and> binding_set snapshot 0 JNull written_world
       = (Some (Error ''MMKV: Type object is not supported!''), written_world)
   \<and> fst (object_set demo_stringify snapshot 0 JNull written_world) = None
   \<and> \<not> mmkv_contains (stores (snd (object_set demo_stringify snapshot 0 JNull written_world)) 0) ''k''"
  using null_setter [OF written_world_fields(1), of snapshot demo_stringify]
    written_world_fields
  by (simp add: mmkv_contains_def mmkv_delete_def)

section \<open>Properties of the object hook\<close>

lemma createMMKVHook_rerender:
  "bindings w b = Some bd \<Longrightarrow> b_key bd = key \<Longrightarrow> b_mmkv bd = h \<Longrightarrow>
   createMMKVHook g b key h w
     = (b_value bd, w\<lparr>bindings := (bindings w)(b \<mapsto> bd\<lparr>b_valueRef := b_value bd\<rparr>)\<rparr>)"
  by (simp add: createMMKVHook_def Let_def)

lemma createMMKVHook_value:
  "fst (createMMKVHook g b key h w) =
     (case bindings w b of None \<Rightarrow> run_getter g (stores w h) key | Some bd \<Rightarrow> b_value bd)"
  by (simp add: createMMKVHook_def Let_def addOnValueChangedListener_def split: option.splits)

lemma useMMKVObject_eq:
  "useMMKVObject parse b key h w =
     (case useMMKVObject_value parse (fst (createMMKVHook GetString b key h w)) of
        Inl e \<Rightarrow> Inl e
      | Inr value \<Rightarrow> Inr (value, snd (createMMKVHook GetString b key h w)))"
  by (cases "createMMKVHook GetString b key h w") (simp add: useMMKVObject_def split: sum.splits)

text \<open>
  C7.  Let \<^verbatim>\<open>JSON.parse\<close> throw \<open>e\<close> on the string \<open>s\<close>.  Then the value of the object
  hook throws \<open>e\<close> when the string binding holds \<open>s\<close>: at the mount of the hook on a key
  that stores \<open>s\<close>, and at a later render when the cached string is \<open>s\<close>.  And since
  \<^verbatim>\<open>JSON.parse\<close> never returns \<^verbatim>\<open>undefined\<close>, the value of the object hook is \<^verbatim>\<open>undefined\<close>
  only when the string of the string binding is absent.
\<close>

theorem decode_failure_propagates:
  assumes bad: "parse (JString s) = Inl e"
  shows
    "useMMKVObject_value parse (JString s) = Inl e
     \<and> (bindings w b = None \<and> contents (stores w h) key = Some (JString s) \<longrightarrow>
          useMMKVObject parse b key h w = Inl e)
     \<and> (\<forall>bd. bindings w b = Some bd \<and> b_value bd = JString s \<longrightarrow>
          useMMKVObject parse b key h w = Inl e)
     \<and> ((\<forall>x. parse x \<noteq> Inr JUndefined) \<longrightarrow>
          (\<forall>string. useMMKVObject_value parse string = Inr JUndefined \<longleftrightarrow> is_nullish string)
        \<and> (\<forall>w'. useMMKVObject parse b key h w = Inr (JUndefined, w') \<longrightarrow>
               is_nullish (fst (createMMKVHook GetString b key h w))))"
proof (intro conjI impI allI)
  show v: "useMMKVObject_value parse (JString s) = Inl e"
    by (simp add: useMMKVObject_value_def bad)
  show "useMMKVObject parse b key h w = Inl e"
    if "bindings w b = None \<and> contents (stores w h) key = Some (JString s)"
    using that by (simp add: useMMKVObject_eq createMMKVHook_value mmkv_getString_def v)
  show "useMMKVObject parse b key h w = Inl e"
    if "bindings w b = Some bd \<and> b_value bd = JString s" for bd
    using that by (simp add: useMMKVObject_eq createMMKVHook_value v)
  assume never: "\<forall>x. parse x \<noteq> Inr JUndefined"
  show u: "useMMKVObject_value parse string = Inr JUndefined \<longleftrightarrow> is_nullish string" for string
    using never by (simp add: useMMKVObject_value_def)
  show "is_nullish (fst (createMMKVHook GetString b key h w))"
    if "useMMKVObject parse b key h w = Inr (JUndefined, w')" for w'
  proof -
    from that have "useMMKVObject_value parse (fst (createMMKVHook GetString b key h w))
        = Inr JUndefined"
      by (simp add: useMMKVObject_eq split: sum.splits)
    then show ?thesis by (simp only: u)
  qed
qed

lemma garbage_world_fields:
  "bindings garbage_world 0 = None"
  "contents (stores garbage_world 0) ''k'' = Some (JString ''not json'')"
  by (simp_all add: garbage_world_def mmkv_set_def)

theorem decode_failure_propagates_witness:
  "demo_parse (JString ''not json'') = Inl (SyntaxError ''Unexpected token'')
   \<and> mmkv_getString (stores garbage_world 0) ''k'' = JString ''not json''
   \<and> useMMKVObject demo_parse 0 ''k'' 0 garbage_world = Inl (SyntaxError ''Unexpected token'')
   \<and> (\<forall>x. demo_parse x \<noteq> Inr JUndefined)
   \<and> useMMKVObject_value demo_parse JUndefined = Inr JUndefined"
proof -
  have bad: "demo_parse (JString ''not json'') = Inl (SyntaxError ''Unexpected token'')"
    by (simp add: demo_parse_def json_a1_def)
  have never: "\<forall>x. demo_parse x \<noteq> Inr JUndefined"
    by (simp add: demo_parse_def)
  note t = decode_failure_propagates [where parse = demo_parse and s = "''not json''"
      and w = garbage_world and b = 0 and h = 0 and key = "''k''", OF bad]
  from t garbage_world_fields
  have 1: "useMMKVObject demo_parse 0 ''k'' 0 garbage_world = Inl (SyntaxError ''Unexpected token'')"
    by simp
  from t never have 2: "useMMKVObject_value demo_parse JUndefined = Inr JUndefined"
    by simp
  from bad never 1 2 garbage_world_fields show ?thesis
    by (simp add: mmkv_getString_def)
qed

lemma object_set_eq:
  "bindings w b = Some bd \<Longrightarrow>
   object_set stringify fs b v w =
     (case useMMKVObject_setValue stringify fs (b_key bd) (b_valueRef bd) v of
        Inl e \<Rightarrow> (Some e, w)
      | Inr c \<Rightarrow> perform (b_mmkv bd) c w)"
  by (simp add: object_set_def run_setter_def)

lemma perform_bound:
  assumes b: "bound w b g key h"
  shows "bound (flush (snd (perform h' c w))) b g key h"
proof -
  from b obtain bd where bd: "bindings w b = Some bd" by (rule bound_binding)
  let ?w = "(snd (perform h' c w))\<lparr>pending := []\<rparr>"
  have bd1: "bindings ?w b = Some bd" by (simp add: bd)
  have "bound ?w b g key h = bound w b g key h"
    by (rule bound_cong [OF _ bd bd1]) simp_all
  with b have "bound ?w b g key h" by simp
  then show ?thesis unfolding flush_def by (rule fold_deliver1_bound)
qed

text \<open>After a write of a string, or a delete, and the delivery of the notifications.\<close>

lemma string_binding_after:
  assumes b: "bound w b GetString key h"
    and p: "perform h c w = (None, w1)" and k: "call_key c = key"
  shows "\<exists>bd. bindings (flush w1) b = Some bd \<and> b_key bd = key \<and> b_mmkv bd = h
           \<and> b_value bd = mmkv_getString (stores w1 h) key"
proof -
  have w1: "w1 = snd (perform h c w)" using p by simp
  have "bound (flush w1) b GetString key h" unfolding w1 by (rule perform_bound [OF b])
  then obtain bd where bd: "bindings (flush w1) b = Some bd" "b_key bd = key" "b_mmkv bd = h"
    by (rule bound_binding)
  from flush_syncs [OF b p k] bd(1)
  have "b_value bd = mmkv_getString (stores w1 h) key"
    by (simp add: synced_def)
  with bd show ?thesis by blast
qed

lemma useMMKVObject_after:
  assumes b: "bound w b GetString key h"
    and p: "perform h c w = (None, w1)" and k: "call_key c = key"
    and v: "useMMKVObject_value parse (mmkv_getString (stores w1 h) key) = Inr x"
  shows "\<exists>w'. useMMKVObject parse b key h (flush w1) = Inr (x, w')"
proof -
  from string_binding_after [OF b p k] obtain bd where
    bd: "bindings (flush w1) b = Some bd" "b_key bd = key" "b_mmkv bd = h"
      "b_value bd = mmkv_getString (stores w1 h) key" by blast
  show ?thesis
    by (simp add: useMMKVObject_eq createMMKVHook_rerender [OF bd(1-3)] bd(4) v)
qed

text \<open>
  C5.  Let the string binding under an object hook be bound to \<open>(key, h)\<close>, and let \<open>v\<close>
  be an object that \<^verbatim>\<open>JSON.stringify\<close> turns into a string which \<^verbatim>\<open>JSON.parse\<close> turns back
  into \<open>v\<close>.  Writing \<open>v\<close> through the setter of the object hook throws nothing, and once
  the notifications are delivered the next render of the hook returns \<open>v\<close>.  Writing
  \<^verbatim>\<open>undefined\<close> throws nothing, the next render returns \<^verbatim>\<open>undefined\<close>, and the handle no
  longer contains the key.
\<close>

theorem object_round_trip:
  assumes b: "bound w b GetString key h"
    and s: "stringify v = Inr (JString s)" and r: "parse (JString s) = Inr v"
    and n: "\<not> is_nullish v"
  shows
    "fst (object_set stringify fs b v w) = None
     \<and> (\<exists>w'. useMMKVObject parse b key h (flush (snd (object_set stringify fs b v w)))
              = Inr (v, w'))
     \<and> fst (object_set stringify fs b JUndefined w) = None
     \<and> (\<exists>w'. useMMKVObject parse b key h (flush (snd (object_set stringify fs b JUndefined w)))
              = Inr (JUndefined, w'))
     \<and> \<not> mmkv_contains (stores (flush (snd (object_set stringify fs b JUndefined w))) h) key"
proof -
  from b obtain bd where bd: "bindings w b = Some bd" "b_key bd = key" "b_mmkv bd = h"
    by (rule bound_binding)
  let ?c = "CallSet key (JString s)"
  have set: "object_set stringify fs b v w = perform h ?c w"
    using n s
    by (simp add: object_set_eq [OF bd(1)] bd useMMKVObject_setValue_def hook_set_def
        normalize_def)
  have ok: "perform h ?c w = (None, snd (perform h ?c w))"
    by (simp add: mmkv_set_def)
  have got: "useMMKVObject_value parse (mmkv_getString (stores (snd (perform h ?c w)) h) key)
      = Inr v"
    by (simp add: mmkv_set_def mmkv_getString_def useMMKVObject_value_def r)
  have 1: "fst (object_set stringify fs b v w) = None"
    by (simp add: set mmkv_set_def)
  have 2: "\<exists>w'. useMMKVObject parse b key h (flush (snd (object_set stringify fs b v w)))
              = Inr (v, w')"
    unfolding set
    by (rule useMMKVObject_after [OF b ok _ got]) simp
  let ?d = "CallDelete key"
  have del: "object_set stringify fs b JUndefined w = perform h ?d w"
    by (simp add: object_set_eq [OF bd(1)] bd useMMKVObject_setValue_def hook_set_def
        normalize_def)
  have okd: "perform h ?d w = (None, snd (perform h ?d w))" by simp
  have gone: "useMMKVObject_value parse (mmkv_getString (stores (snd (perform h ?d w)) h) key)
      = Inr JUndefined"
    by (simp add: mmkv_delete_def mmkv_getString_def useMMKVObject_value_def)
  have 3: "fst (object_set stringify fs b JUndefined w) = None"
    by (simp add: del)
  have 4: "\<exists>w'. useMMKVObject parse b key h (flush (snd (object_set stringify fs b JUndefined w)))
              = Inr (JUndefined, w')"
    unfolding del
    by (rule useMMKVObject_after [OF b okd _ gone]) simp
  have 5: "\<not> mmkv_contains (stores (flush (snd (object_set stringify fs b JUndefined w))) h) key"
    by (simp add: del mmkv_delete_def mmkv_contains_def)
  from 1 2 3 4 5 show ?thesis by blast
qed


lemma two_bindings_bound0: "bound two_bindings 0 GetString ''k'' 0"
  by (simp add: bound_def two_bindings_fields)

theorem object_round_trip_witness:
  "bound two_bindings 0 GetString ''k'' 0
   \<and> demo_stringify (JObject [(''a'', JNumber 1)]) = Inr (JString json_a1)
   \<and> demo_parse (JString json_a1) = Inr (JObject [(''a'', JNumber 1)])
   \<and> \<not> is_nullish (JObject [(''a'', JNumber 1)])
   \<and> map_sum id fst
         (useMMKVObject demo_parse 0 ''k'' 0
            (flush (snd (object_set demo_stringify snapshot 0 (JObject [(''a'', JNumber 1)])
                           two_bindings))))
       = Inr (JObject [(''a'', JNumber 1)])
   \<and> map_sum id fst
         (useMMKVObject demo_parse 0 ''k'' 0
            (flush (snd (object_set demo_stringify snapshot 0 JUndefined two_bindings))))
       = Inr JUndefined"
proof -
  let ?v = "JObject [(''a'', JNumber 1)]"
  have s: "demo_stringify ?v = Inr (JString json_a1)" by (simp add: demo_stringify_def)
  have r: "demo_parse (JString json_a1) = Inr ?v" by (simp add: demo_parse_def)
  have n: "\<not> is_nullish ?v" by simp
  note t = object_round_trip [where stringify = demo_stringify and parse = demo_parse
      and fs = snapshot and v = ?v and s = json_a1, OF two_bindings_bound0 s r n]
  from t obtain w' where
    "useMMKVObject demo_parse 0 ''k'' 0
       (flush (snd (object_set demo_stringify snapshot 0 ?v two_bindings))) = Inr (?v, w')"
    by blast
  then have 1: "map_sum id fst
         (useMMKVObject demo_parse 0 ''k'' 0
            (flush (snd (object_set demo_stringify snapshot 0 ?v two_bindings)))) = Inr ?v"
    by simp
  from t obtain w'' where
    "useMMKVObject demo_parse 0 ''k'' 0
       (flush (snd (object_set demo_stringify snapshot 0 JUndefined two_bindings)))
       = Inr (JUndefined, w'')"
    by blast
  then have 2: "map_sum id fst
         (useMMKVObject demo_parse 0 ''k'' 0
            (flush (snd (object_set demo_stringify snapshot 0 JUndefined two_bindings))))
       = Inr JUndefined"
    by simp
  from two_bindings_bound0 s r n 1 2 show ?thesis by blast
qed

section \<open>Properties of listeners\<close>

lemma add_frame [simp]:
  "listeners (stores (snd (addOnValueChangedListener h c w)) h') =
     (if h' = h then listeners (stores w h) @ [(next_listener w, c)] else listeners (stores w h'))"
  "contents (stores (snd (addOnValueChangedListener h c w)) h') = contents (stores w h')"
  "next_listener (snd (addOnValueChangedListener h c w)) = Suc (next_listener w)"
  "fst (addOnValueChangedListener h c w) = next_listener w"
  "pending (snd (addOnValueChangedListener h c w)) = pending w"
  "delivered (snd (addOnValueChangedListener h c w)) = delivered w"
  "bindings (snd (addOnValueChangedListener h c w)) = bindings w"
  "listener_hooks (snd (addOnValueChangedListener h c w)) = listener_hooks w"
  "calls (snd (addOnValueChangedListener h c w)) = calls w"
  by (simp_all add: addOnValueChangedListener_def)

lemma remove_frame [simp]:
  "listeners (stores (listener_remove h i w) h') =
     (if h' = h then filter (\<lambda>(j, c). j \<noteq> i) (listeners (stores w h))
      else listeners (stores w h'))"
  "contents (stores (listener_remove h i w) h') = contents (stores w h')"
  "next_listener (listener_remove h i w) = next_listener w"
  "pending (listener_remove h i w) = pending w"
  "delivered (listener_remove h i w) = delivered w"
  "bindings (listener_remove h i w) = bindings w"
  "listener_hooks (listener_remove h i w) = listener_hooks w"
  "calls (listener_remove h i w) = calls w"
  by (simp_all add: listener_remove_def)

lemma absent_on_cong:
  "next_listener w' = next_listener w \<Longrightarrow>
   (\<And>h. listeners (stores w' h) = listeners (stores w h)) \<Longrightarrow>
   absent_on i H w' = absent_on i H w"
  by (simp add: absent_on_def)

lemma absent_on_add:
  "absent_on i H w \<Longrightarrow> absent_on i H (snd (addOnValueChangedListener h c w))"
  by (auto simp: absent_on_def)

lemma absent_on_remove:
  "absent_on i H w \<Longrightarrow> absent_on i H (listener_remove h j w)"
  by (auto simp: absent_on_def)

lemma absent_on_removed:
  "absent_on i (UNIV - {h}) w \<Longrightarrow> absent_on i UNIV (listener_remove h i w)"
  by (auto simp: absent_on_def)

lemma absent_on_added:
  assumes "fresh_ids w"
  shows "absent_on (next_listener w) (UNIV - {h}) (snd (addOnValueChangedListener h c w))"
proof -
  have "next_listener w \<notin> fst ` set (listeners (stores w h'))" for h'
  proof
    assume "next_listener w \<in> fst ` set (listeners (stores w h'))"
    then obtain c' where "(next_listener w, c') \<in> set (listeners (stores w h'))" by auto
    with assms have "next_listener w < next_listener w"
      unfolding fresh_ids_def by blast
    then show False by simp
  qed
  then show ?thesis by (simp add: absent_on_def)
qed


lemma deliver1_listeners [simp]:
  "listeners (stores (deliver1 n w) h) = listeners (stores w h)"
  by simp

lemma deliver_frame [simp]:
  "stores (deliver w) = stores w"
  "next_listener (deliver w) = next_listener w"
  by (simp_all add: deliver_def split: list.splits)

lemma createMMKVHook_frame:
  "next_listener w \<le> next_listener (snd (createMMKVHook g b key h w))"
  "delivered (snd (createMMKVHook g b key h w)) = delivered w"
  by (simp_all add: createMMKVHook_def Let_def case_prod_beta split: option.splits)

lemma absent_on_bindings [simp]:
  "absent_on i H (w\<lparr>bindings := x\<rparr>) = absent_on i H w"
  "absent_on i H (w\<lparr>listener_hooks := y\<rparr>) = absent_on i H w"
  by (simp_all add: absent_on_def)

lemma absent_on_createMMKVHook:
  assumes "absent_on i H w"
  shows "absent_on i H (snd (createMMKVHook g b key h w))"
proof (cases "bindings w b")
  case None
  with assms show ?thesis
    by (simp add: createMMKVHook_def Let_def case_prod_beta absent_on_add)
next
  case (Some bd)
  with assms show ?thesis
    by (simp add: createMMKVHook_def Let_def case_prod_beta absent_on_add absent_on_remove)
qed

lemma absent_on_useMMKVListener:
  assumes "absent_on i H w"
  shows "absent_on i H (useMMKVListener r f h w)"
proof (cases "listener_hooks w r")
  case None
  with assms show ?thesis
    by (simp add: useMMKVListener_def Let_def case_prod_beta absent_on_add)
next
  case (Some l)
  with assms show ?thesis
    by (simp add: useMMKVListener_def Let_def case_prod_beta absent_on_add absent_on_remove)
qed

lemma absent_on_perform:
  "absent_on i H (snd (perform h c w)) = absent_on i H w"
  by (rule absent_on_cong) simp_all

lemma absent_on_run_setter:
  "absent_on i H (snd (run_setter setter b w)) = absent_on i H w"
  by (simp add: run_setter_def absent_on_perform split: option.splits sum.splits)

lemma absent_on_step:
  assumes "absent_on i H w"
  shows "absent_on i H (step e w)"
proof (cases e)
  case (Set h k v)
  have "absent_on i H (snd (mmkv_set h k v w)) = absent_on i H w"
    by (rule absent_on_cong) simp_all
  with assms Set show ?thesis by simp
next
  case (Delete h k)
  have "absent_on i H (mmkv_delete h k w) = absent_on i H w"
    by (rule absent_on_cong) simp_all
  with assms Delete show ?thesis by simp
next
  case (Changed h k)
  have "absent_on i H (notify h k w) = absent_on i H w"
    by (rule absent_on_cong) simp_all
  with assms Changed show ?thesis by simp
next
  case (Subscribe h c)
  with assms show ?thesis by (simp add: absent_on_add)
next
  case (Cancel h j)
  with assms show ?thesis by (simp add: absent_on_remove)
next
  case Deliver
  have "absent_on i H (deliver w) = absent_on i H w"
    by (rule absent_on_cong) simp_all
  with assms Deliver show ?thesis by simp
next
  case (Render g b key h)
  with assms show ?thesis by (simp add: absent_on_createMMKVHook)
next
  case (RenderListener r f h)
  with assms show ?thesis by (simp add: absent_on_useMMKVListener)
next
  case (Write fs b v)
  with assms show ?thesis by (simp add: binding_set_def absent_on_run_setter)
qed

lemma absent_on_run:
  "absent_on i H w \<Longrightarrow> absent_on i H (run evs w)"
  unfolding run_def by (induction evs arbitrary: w) (simp_all add: absent_on_step)

text \<open>A registration that is in no registry is not invoked.\<close>

lemma deliver1_absent:
  assumes "absent_on i UNIV w"
  shows "invocations i (delivered (deliver1 n w)) = invocations i (delivered w)"
proof -
  obtain h j k where n: "n = (h, j, k)" by (cases n) auto
  show ?thesis
  proof (cases "map_of (listeners (stores w h)) j")
    case None
    then show ?thesis by (simp add: n deliver1_def)
  next
    case (Some c)
    then have "(j, c) \<in> set (listeners (stores w h))" by (rule map_of_SomeD)
    then have "j \<in> fst ` set (listeners (stores w h))" by force
    with assms have "j \<noteq> i" by (auto simp: absent_on_def)
    with Some show ?thesis by (simp add: n deliver1_def invocations_def)
  qed
qed

lemma deliver_absent:
  assumes "absent_on i UNIV w"
  shows "invocations i (delivered (deliver w)) = invocations i (delivered w)"
proof (cases "pending w")
  case Nil
  then show ?thesis by (simp add: deliver_def)
next
  case (Cons n ns)
  have "absent_on i UNIV (w\<lparr>pending := ns\<rparr>) = absent_on i UNIV w"
    by (rule absent_on_cong) simp_all
  with assms have "absent_on i UNIV (w\<lparr>pending := ns\<rparr>)" by simp
  from deliver1_absent [OF this, of n] Cons show ?thesis by (simp add: deliver_def)
qed

lemma run_setter_delivered [simp]:
  "delivered (snd (run_setter setter b w)) = delivered w"
  by (simp add: run_setter_def split: option.splits sum.splits)

lemma useMMKVListener_delivered [simp]:
  "delivered (useMMKVListener r f h w) = delivered w"
  by (simp add: useMMKVListener_def Let_def case_prod_beta split: option.splits)

lemma step_absent:
  assumes "absent_on i UNIV w"
  shows "invocations i (delivered (step e w)) = invocations i (delivered w)"
proof (cases e)
  case Deliver
  with deliver_absent [OF assms] show ?thesis by simp
qed (simp_all add: createMMKVHook_frame binding_set_def)

lemma run_absent:
  "absent_on i UNIV w \<Longrightarrow> invocations i (delivered (run evs w)) = invocations i (delivered w)"
proof (induction evs arbitrary: w)
  case Nil
  then show ?case by (simp add: run_def)
next
  case (Cons e evs)
  from Cons.prems have a: "absent_on i UNIV (step e w)" by (rule absent_on_step)
  have "run (e # evs) w = run evs (step e w)" by (simp add: run_def)
  with Cons.IH [OF a] step_absent [OF Cons.prems, of e] show ?case by simp
qed

text \<open>
  C8.  Let a listener be registered on a handle \<open>h\<close> and get the registration \<open>i\<close>.
  Whatever happens next (\<open>evs1\<close>: notifications for it may be scheduled and still
  undelivered), once \<^verbatim>\<open>remove()\<close> of the registration has run, nothing that happens
  afterwards (\<open>evs2\<close>: changes, deliveries of notifications scheduled before or after,
  registrations, renders, writes) invokes it: its invocations in the log stay those made
  before the removal.
\<close>

theorem cancelled_listener_silent:
  assumes fresh: "fresh_ids w0"
    and reg: "addOnValueChangedListener h c w0 = (i, w1)"
  shows "invocations i (delivered (run evs2 (listener_remove h i (run evs1 w1))))
           = invocations i (delivered (run evs1 w1))"
proof -
  from reg have "fst (addOnValueChangedListener h c w0) = i" by simp
  then have i: "i = next_listener w0" by simp
  from reg have w1: "w1 = snd (addOnValueChangedListener h c w0)" by simp
  have "absent_on i (UNIV - {h}) w1"
    unfolding i w1 by (rule absent_on_added [OF fresh])
  then have "absent_on i (UNIV - {h}) (run evs1 w1)" by (rule absent_on_run)
  then have "absent_on i UNIV (listener_remove h i (run evs1 w1))" by (rule absent_on_removed)
  from run_absent [OF this, of evs2] show ?thesis by simp
qed

lemma empty_world_fresh: "fresh_ids empty_world"
  by (simp add: fresh_ids_def)

theorem cancelled_listener_silent_witness:
  "fresh_ids empty_world
   \<and> addOnValueChangedListener 0 (RefListener 0) empty_world = (0, one_listener)
   \<and> pending (run [Set 0 ''k'' (JNumber 1)] one_listener) = [(0, 0, ''k'')]
   \<and> delivered (run [Deliver] (run [Set 0 ''k'' (JNumber 1)] one_listener)) = [(0, ''k'')]
   \<and> invocations 0 (delivered (run [Set 0 ''k'' (JNumber 1)] one_listener)) = []
   \<and> invocations 0
         (delivered (run [Deliver, Set 0 ''k'' (JNumber 2), Deliver]
            (listener_remove 0 0 (run [Set 0 ''k'' (JNumber 1)] one_listener)))) = []"
proof -
  have reg: "addOnValueChangedListener 0 (RefListener 0) empty_world = (0, one_listener)"
    by (simp add: one_listener_def addOnValueChangedListener_def)
  have p: "pending (run [Set 0 ''k'' (JNumber 1)] one_listener) = [(0, 0, ''k'')]"
    by (simp add: run_def one_listener_def mmkv_set_def)
  have d: "delivered (run [Deliver] (run [Set 0 ''k'' (JNumber 1)] one_listener)) = [(0, ''k'')]"
    by (simp add: run_def one_listener_def mmkv_set_def deliver_def deliver1_def)
  have b: "invocations 0 (delivered (run [Set 0 ''k'' (JNumber 1)] one_listener)) = []"
    by (simp add: run_def one_listener_def invocations_def)
  note t = cancelled_listener_silent [OF empty_world_fresh reg,
      of "[Deliver, Set 0 ''k'' (JNumber 2), Deliver]" "[Set 0 ''k'' (JNumber 1)]"]
  from empty_world_fresh reg p d b t show ?thesis by simp
qed

lemma useMMKVListener_rerender:
  "listener_hooks w r = Some l \<Longrightarrow> l_mmkv l = mmkv \<Longrightarrow>
   useMMKVListener r f mmkv w = w\<lparr>listener_hooks := (listener_hooks w)(r \<mapsto> l\<lparr>l_ref := f\<rparr>)\<rparr>"
  by (simp add: useMMKVListener_def)

text \<open>
  C9.  A render of a mounted listener hook against the handle it is subscribed to, with
  any function \<open>f\<close>: no listener is registered or removed (the registries, the next
  registration and the scheduled notifications are as before, and the hook keeps its
  listener), and in every later world in which the hook has not rendered again, a
  notification that reaches the listener calls \<open>f\<close>, the function of this render, and
  nothing else.
\<close>

theorem listener_keeps_subscription:
  assumes l: "listener_hooks w r = Some l" and m: "l_mmkv l = mmkv"
  shows
    "stores (useMMKVListener r f mmkv w) = stores w
     \<and> next_listener (useMMKVListener r f mmkv w) = next_listener w
     \<and> pending (useMMKVListener r f mmkv w) = pending w
     \<and> listener_hooks (useMMKVListener r f mmkv w) r = Some (l\<lparr>l_ref := f\<rparr>)
     \<and> (\<forall>w'. listener_hooks w' r = listener_hooks (useMMKVListener r f mmkv w) r \<longrightarrow>
          calls (invoke (RefListener r) k w') = calls w' @ [(f, k)])
     \<and> (map_of (listeners (stores w mmkv)) (l_listener l) = Some (RefListener r) \<longrightarrow>
          calls (deliver1 (mmkv, l_listener l, k) (useMMKVListener r f mmkv w))
            = calls w @ [(f, k)])"
  by (simp add: useMMKVListener_rerender [OF l m] deliver1_def)

lemma listener_mounted_fields:
  "listener_hooks listener_mounted 0 = Some \<lparr>l_ref = 7, l_mmkv = 0, l_listener = 0\<rparr>"
  "listeners (stores listener_mounted 0) = [(0, RefListener 0)]"
  "calls listener_mounted = []"
  "pending listener_mounted = []"
  by (simp_all add: listener_mounted_def useMMKVListener_def addOnValueChangedListener_def)

theorem listener_keeps_subscription_witness:
  "listener_hooks listener_mounted 0 = Some \<lparr>l_ref = 7, l_mmkv = 0, l_listener = 0\<rparr>
   \<and> listeners (stores listener_mounted 0) = [(0, RefListener 0)]
   \<and> stores listener_rerendered = stores listener_mounted
   \<and> next_listener listener_rerendered = next_listener listener_mounted
   \<and> calls (flush (snd (mmkv_set 0 ''k'' (JNumber 1) listener_rerendered))) = [(8, ''k'')]"
proof -
  note t = listener_keeps_subscription [where w = listener_mounted and r = 0 and mmkv = 0
      and f = 8 and k = "''k''", OF listener_mounted_fields(1)]
  from t have s: "stores listener_rerendered = stores listener_mounted"
    and n: "next_listener listener_rerendered = next_listener listener_mounted"
    and d: "calls (deliver1 (0, 0, ''k'') listener_rerendered) = [(8, ''k'')]"
    by (simp_all add: listener_rerendered_def listener_mounted_fields)
  have p: "pending listener_rerendered = []"
    using t by (simp add: listener_rerendered_def listener_mounted_fields)
  have c: "calls (flush (snd (mmkv_set 0 ''k'' (JNumber 1) listener_rerendered))) = [(8, ''k'')]"
    by (simp add: flush_def mmkv_set_def s p listener_mounted_fields deliver1_def
        listener_rerendered_def useMMKVListener_rerender [OF listener_mounted_fields(1)])
  from listener_mounted_fields s n c show ?thesis by simp
qed

end
